theory Spec2Isabelle
  imports Complex_Main "HOL-Library.Word"
begin

unbundle bit_operations_syntax

section \<open>Codec layer of the telephony bridge (twilio-server.ts)\<close>

text \<open>
  An \<open>Int16Array\<close> is a list of 16-bit words, read as two's complement by \<open>sint\<close>; a
  \<open>Buffer\<close> is a list of bytes.  A store into either converts the JavaScript number
  modulo the element width, which is \<open>word_of_int\<close>.  JavaScript's bitwise operators
  work on 32-bit integers; every value below stays far inside that range, so they are
  the bit operations of \<open>int\<close>.  A typed array is allocated zero-filled and a store past
  its end is ignored, which is what \<open>xs[i := v]\<close> does.
\<close>

type_synonym int16 = "16 word"
type_synonym byte = "8 word"

text \<open>The body of the loop that fills \<open>MU_LAW_TABLE\<close>, for index \<open>i\<close>.\<close>

definition mulaw_entry :: "nat \<Rightarrow> int" where
  "mulaw_entry i =
     (let sign = (if (int i AND 0x80) \<noteq> 0 then - 1 else 1);
          exponent = (drop_bit 4 (int i)) AND 0x07;
          mantissa = int i AND 0x0f;
          sample = push_bit (nat exponent) (push_bit 3 mantissa + 0x84) - 0x84
      in sign * sample)"

definition MU_LAW_TABLE :: "int16 list" where
  "MU_LAW_TABLE =
     fold (\<lambda>i t. t[i := word_of_int (mulaw_entry i)]) [0..<256] (replicate 256 0)"

definition decodeMulaw :: "byte list \<Rightarrow> int16 list" where
  "decodeMulaw data =
     fold (\<lambda>i samples. samples[i := MU_LAW_TABLE ! unat (data ! i)])
       [0..<length data] (replicate (length data) 0)"

text \<open>
  The inner loop of \<open>encodeMulaw\<close>: \<open>exponent\<close> starts at 7 and the loop leaves at the
  first \<open>exp\<close> below 8 with \<open>sample < (1 << (exp + 3))\<close> (the loop variable is \<open>e\<close> here).
\<close>

function exponent_loop :: "int \<Rightarrow> nat \<Rightarrow> nat" where
  "exponent_loop sample e =
     (if e < 8
      then (if sample < push_bit (e + 3) 1 then e else exponent_loop sample (e + 1))
      else 7)"
  by pat_completeness auto
termination
  by (relation "measure (\<lambda>(sample, e). 8 - e)") auto

definition biased :: "int16 \<Rightarrow> int" where
  "biased x =
     (let sample = sint x;
          sample = (if sample < - 32768 then - 32768 else sample);
          sample = (if sample > 32767 then 32767 else sample);
          sample = (if sample < 0 then - sample else sample)
      in sample + 0x84)"

definition encode_sample :: "int16 \<Rightarrow> byte" where
  "encode_sample x =
     (let sign = (if sint x < 0 then 0x80 else 0);
          sample = biased x;
          exponent = exponent_loop sample 0;
          mantissa = drop_bit (exponent + 3) sample AND 0x0F
      in word_of_int (NOT (sign OR push_bit 4 (int exponent) OR mantissa)))"

definition encodeMulaw :: "int16 list \<Rightarrow> byte list" where
  "encodeMulaw pcmData =
     fold (\<lambda>i buffer. buffer[i := encode_sample (pcmData ! i)])
       [0..<length pcmData] (replicate (length pcmData) 0)"

definition resample8kTo16k :: "int16 list \<Rightarrow> int16 list" where
  "resample8kTo16k input =
     fold (\<lambda>i output. (output[i * 2 := input ! i])[i * 2 + 1 := input ! i])
       [0..<length input] (replicate (length input * 2) 0)"

definition resample24kTo8k :: "int16 list \<Rightarrow> int16 list" where
  "resample24kTo8k input =
     (let n = length input div 3
      in fold (\<lambda>i output. output[i := input ! (i * 3)]) [0..<n] (replicate n 0))"

text \<open>
  The expansion the specification writes for a compressed byte, in arithmetic on the
  byte's fields: sign bit, 3-bit exponent, 4-bit mantissa, bias \<open>0x84 = 132\<close>.
\<close>

definition companding_expand :: "byte \<Rightarrow> int" where
  "companding_expand b =
     (let sign = (if 128 \<le> unat b then - 1 else 1);
          exponent = (unat b div 16) mod 8;
          mantissa = int (unat b mod 16)
      in sign * ((mantissa * 8 + 132) * 2 ^ exponent - 132))"

text \<open>
  One quantization step of exponent band \<open>e\<close>: the distance between the table's values
  for neighbouring mantissas, \<open>8 << e\<close>.
\<close>

definition quant_step :: "nat \<Rightarrow> int" where
  "quant_step e = push_bit e 8"

definition band :: "int16 \<Rightarrow> nat" where
  "band x = exponent_loop (biased x) 0"

section \<open>The interactive bridge (geminiLiveService.ts)\<close>

text \<open>
  The service object is a record of its fields.  Device and session objects are
  handles (numbers); what the service does to them, and every callback it makes to its
  collaborator, is an \<open>action\<close> of the trace a handler returns.  The closure of one
  \<open>startSession\<close> call that reached \<open>live.connect\<close> (its \<open>sessionPromise\<close>, the reactions
  registered on it with \<open>then\<close>, and \<open>actualSampleRate\<close>) is a \<open>conn\<close>, numbered in
  order of creation; the callbacks of connection \<open>k\<close> carry that number.
\<close>

text \<open>
  Errors nothing catches.  \<open>Rejection\<close> is the reason a rejected session promise passes
  to a \<open>then\<close> that has no rejection handler: the promise \<open>then\<close> returns is rejected
  with it and nothing handles that.
\<close>

datatype js_error = TypeError | SyntaxError | Rejection

datatype failure = ConnectionError | StartError

record tool_args =
  verdict :: "string option"
  reason :: "string option"
  confidence :: "int option"

record function_call =
  call_id :: string
  call_name :: string
  call_args :: tool_args

datatype tool_call = ToolCall (functionCalls: "function_call list option")

record server_message =
  audioData :: "string option"
  toolCall :: "tool_call option"

datatype input_buffer = InputBuffer nat

text \<open>
  Modelled from the spec: \<open>createPcmBlob\<close> and \<open>decodeAudioData\<close> (audioUtils, not among
  the sources).  The first tags the captured samples with their sample rate, the second
  decodes the remote payload into a playback buffer; both are total and keep their
  arguments.
\<close>

datatype pcm_blob = PcmBlob input_buffer nat

datatype audio_buffer = AudioBuffer string

definition createPcmBlob :: "input_buffer \<Rightarrow> nat \<Rightarrow> pcm_blob" where
  "createPcmBlob inputData rate = PcmBlob inputData rate"

definition decodeAudioData :: "string \<Rightarrow> audio_buffer" where
  "decodeAudioData payload = AudioBuffer payload"

datatype action =
    GetUserMedia
  | NewAudioContext nat
  | ResumeContext nat
  | LiveConnect nat
  | OnConnect
  | OnDisconnect
  | OnAudioData audio_buffer
  | OnToolCall tool_args
  | OnError failure
  | CreateMediaStreamSource nat
  | CreateScriptProcessor nat
  | ConnectNodes nat
  | SendRealtimeInput nat pcm_blob
  | SendToolResponse nat string string
  | SessionClose nat
  | TracksStop nat
  | SourceDisconnect nat
  | ProcessorDisconnect nat
  | ContextClose nat
  | Console string
  | Unhandled js_error

datatype pstate = Pending | Fulfilled | Rejected

datatype reaction = SendAudio pcm_blob | SendAck string string

record conn =
  promise :: pstate
  reactions :: "reaction list"
  actualSampleRate :: nat
  capturing :: bool

record service =
  session :: "nat option"
  inputAudioContext :: "nat option"
  inputSource :: "nat option"
  processor :: "nat option"
  stream :: "nat option"
  isActive :: bool
  conns :: "conn list"
  fresh :: nat

definition new_service :: service where
  "new_service = \<lparr>session = None, inputAudioContext = None, inputSource = None,
     processor = None, stream = None, isActive = False, conns = [], fresh = 0\<rparr>"

definition cleanup :: "service \<Rightarrow> service \<times> action list" where
  "cleanup s =
     (let s1 = s\<lparr>isActive := False\<rparr>;
          a1 = (case stream s1 of Some st \<Rightarrow> [TracksStop st] | None \<Rightarrow> []);
          s2 = (case stream s1 of Some st \<Rightarrow> s1\<lparr>stream := None\<rparr> | None \<Rightarrow> s1);
          a2 = (case (processor s2, inputSource s2) of
                  (Some p, Some src) \<Rightarrow> [SourceDisconnect src, ProcessorDisconnect p]
                | _ \<Rightarrow> []);
          a3 = (case inputAudioContext s2 of Some c \<Rightarrow> [ContextClose c] | None \<Rightarrow> []);
          s3 = (case inputAudioContext s2 of
                  Some c \<Rightarrow> s2\<lparr>inputAudioContext := None\<rparr> | None \<Rightarrow> s2)
      in (s3, a1 @ a2 @ a3))"

text \<open>
  \<open>stopSession\<close>: \<open>close_throws\<close> says whether \<open>session.close()\<close> raises; the \<open>catch\<close>
  only warns.
\<close>

definition stopSession :: "bool \<Rightarrow> service \<Rightarrow> service \<times> action list" where
  "stopSession close_throws s =
     (let a0 = (case session s of
                  Some h \<Rightarrow> SessionClose h #
                    (if close_throws then [Console ''Could not strictly close session''] else [])
                | None \<Rightarrow> [])
      in case cleanup s of (s', a) \<Rightarrow> (s', a0 @ a))"

text \<open>
  \<open>sessionPromise.then(f)\<close>: \<open>f\<close> runs at once (as a microtask) when the promise is
  fulfilled and is queued while it is pending.  Once the promise is rejected \<open>f\<close> never
  runs; no call passes a rejection handler, so each such \<open>then\<close> ends as an unhandled
  rejection.
\<close>

fun perform :: "nat \<Rightarrow> reaction \<Rightarrow> action" where
  "perform k (SendAudio blob) = SendRealtimeInput k blob"
| "perform k (SendAck i n) = SendToolResponse k i n"

definition then_session :: "nat \<Rightarrow> reaction list \<Rightarrow> service \<Rightarrow> service \<times> action list" where
  "then_session k rs s =
     (case promise (conns s ! k) of
        Fulfilled \<Rightarrow> (s, map (perform k) rs)
      | Pending \<Rightarrow>
          (s\<lparr>conns := (conns s)[k := (conns s ! k)\<lparr>reactions := reactions (conns s ! k) @ rs\<rparr>]\<rparr>, [])
      | Rejected \<Rightarrow> (s, map (\<lambda>r. Unhandled Rejection) rs))"

datatype start_env = MicDenied | ResumeFails | Proceeds bool nat

text \<open>
  \<open>startSession\<close> up to \<open>await sessionPromise\<close>.  The environment decides whether
  \<open>getUserMedia\<close> is granted, whether the new context is suspended and \<open>resume\<close> works,
  and the context's sample rate.
\<close>

definition startSession :: "start_env \<Rightarrow> service \<Rightarrow> service \<times> action list" where
  "startSession env s =
     (if isActive s then (s, [])
      else
        (case env of
           MicDenied \<Rightarrow>
             (case cleanup s of (s', a) \<Rightarrow>
                (s', [GetUserMedia, Console ''Failed to start session:'', OnError StartError] @ a))
         | ResumeFails \<Rightarrow>
             (let n = fresh s;
                  s1 = s\<lparr>stream := Some n, inputAudioContext := Some n, fresh := n + 1\<rparr>
              in case cleanup s1 of (s', a) \<Rightarrow>
                (s', [GetUserMedia, NewAudioContext n, ResumeContext n,
                      Console ''Failed to start session:'', OnError StartError] @ a))
         | Proceeds suspended rate \<Rightarrow>
             (let n = fresh s;
                  k = length (conns s);
                  s1 = s\<lparr>stream := Some n, inputAudioContext := Some n, fresh := n + 1,
                         conns := conns s @ [\<lparr>promise = Pending, reactions = [],
                           actualSampleRate = rate, capturing = False\<rparr>]\<rparr>
              in (s1, [GetUserMedia, NewAudioContext n] @
                      (if suspended then [ResumeContext n] else []) @ [LiveConnect k]))))"

definition onopen :: "nat \<Rightarrow> service \<Rightarrow> service \<times> action list" where
  "onopen k s =
     (let s1 = s\<lparr>isActive := True\<rparr>;
          a = [Console ''Gemini Live Connected'', OnConnect]
      in if inputAudioContext s1 = None \<or> stream s1 = None then (s1, a)
         else (s1\<lparr>inputSource := Some k, processor := Some k,
                   conns := (conns s1)[k := (conns s1 ! k)\<lparr>capturing := True\<rparr>]\<rparr>,
               a @ [CreateMediaStreamSource k, CreateScriptProcessor k, ConnectNodes k]))"

definition onaudioprocess :: "nat \<Rightarrow> input_buffer \<Rightarrow> service \<Rightarrow> service \<times> action list" where
  "onaudioprocess k inputData s =
     (if \<not> isActive s then (s, [])
      else then_session k [SendAudio (createPcmBlob inputData (actualSampleRate (conns s ! k)))] s)"

text \<open>
  The loop over \<open>msg.toolCall.functionCalls\<close>: the callbacks it makes, and the
  reactions it registers on the session promise.
\<close>

fun tool_loop :: "function_call list \<Rightarrow> action list \<times> reaction list" where
  "tool_loop [] = ([], [])"
| "tool_loop (c # cs) =
     (if call_name c = ''report_outcome''
      then (case tool_loop cs of (a, r) \<Rightarrow>
              (OnToolCall (call_args c) # a, SendAck (call_id c) (call_name c) # r))
      else tool_loop cs)"

definition onmessage :: "nat \<Rightarrow> server_message \<Rightarrow> service \<Rightarrow> service \<times> action list" where
  "onmessage k msg s =
     (let audio = (case audioData msg of
                     Some d \<Rightarrow> if d \<noteq> [] then [OnAudioData (decodeAudioData d)] else []
                   | None \<Rightarrow> [])
      in case toolCall msg of
           None \<Rightarrow> (s, audio)
         | Some tc \<Rightarrow>
             (case functionCalls tc of
                None \<Rightarrow> (s, audio @ [Unhandled TypeError])
              | Some calls \<Rightarrow>
                  (case tool_loop calls of (cb, rs) \<Rightarrow>
                     (case then_session k rs s of (s', sent) \<Rightarrow> (s', audio @ cb @ sent)))))"

definition onclose :: "service \<Rightarrow> service \<times> action list" where
  "onclose s = (case cleanup s of (s', a) \<Rightarrow> (s', [Console ''Session Closed'', OnDisconnect] @ a))"

definition onerror :: "service \<Rightarrow> service \<times> action list" where
  "onerror s =
     (case cleanup s of (s', a) \<Rightarrow> (s', [Console ''Session Error'', OnError ConnectionError] @ a))"

text \<open>
  The session promise of connection \<open>k\<close> settles, once.  Fulfilled: the continuation
  of \<open>startSession\<close> stores the session, then the queued reactions run in the order
  they were registered.  Rejected: the \<open>catch\<close> of \<open>startSession\<close> runs, and every
  reaction queued with \<open>then\<close> ends as an unhandled rejection.
\<close>

definition resolved :: "nat \<Rightarrow> service \<Rightarrow> service \<times> action list" where
  "resolved k s =
     (if promise (conns s ! k) \<noteq> Pending then (s, [])
      else (s\<lparr>session := Some k,
               conns := (conns s)[k := (conns s ! k)\<lparr>promise := Fulfilled, reactions := []\<rparr>]\<rparr>,
            map (perform k) (reactions (conns s ! k))))"

definition rejected :: "nat \<Rightarrow> service \<Rightarrow> service \<times> action list" where
  "rejected k s =
     (if promise (conns s ! k) \<noteq> Pending then (s, [])
      else (case cleanup (s\<lparr>conns := (conns s)[k := (conns s ! k)\<lparr>promise := Rejected,
                            reactions := []\<rparr>]\<rparr>) of
              (s', a) \<Rightarrow>
                (s', [Console ''Failed to start session:'', OnError StartError] @ a @
                     map (\<lambda>r. Unhandled Rejection) (reactions (conns s ! k)))))"

datatype event =
    StartSession start_env
  | Open nat
  | AudioProcess nat input_buffer
  | Resolved nat
  | Refused nat
  | Message nat server_message
  | Closed nat
  | Errored nat
  | StopSession bool

text \<open>
  One event of the service.  An event of a connection that was never created cannot
  occur, and an audio callback needs the processor that \<open>onopen\<close> creates.
\<close>

fun step :: "event \<Rightarrow> service \<Rightarrow> service \<times> action list" where
  "step (StartSession env) s = startSession env s"
| "step (StopSession close_throws) s = stopSession close_throws s"
| "step (Open k) s = (if k < length (conns s) then onopen k s else (s, []))"
| "step (AudioProcess k inputData) s =
     (if k < length (conns s) \<and> capturing (conns s ! k) then onaudioprocess k inputData s
      else (s, []))"
| "step (Resolved k) s = (if k < length (conns s) then resolved k s else (s, []))"
| "step (Refused k) s = (if k < length (conns s) then rejected k s else (s, []))"
| "step (Message k msg) s = (if k < length (conns s) then onmessage k msg s else (s, []))"
| "step (Closed k) s = (if k < length (conns s) then onclose s else (s, []))"
| "step (Errored k) s = (if k < length (conns s) then onerror s else (s, []))"

fun run :: "event list \<Rightarrow> service \<Rightarrow> service \<times> action list" where
  "run [] s = (s, [])"
| "run (e # es) s =
     (case step e s of (s1, a1) \<Rightarrow> (case run es s1 of (s2, a2) \<Rightarrow> (s2, a1 @ a2)))"

fun verdicts_delivered :: "action list \<Rightarrow> tool_args list" where
  "verdicts_delivered [] = []"
| "verdicts_delivered (OnToolCall a # tr) = a # verdicts_delivered tr"
| "verdicts_delivered (_ # tr) = verdicts_delivered tr"

fun acknowledgments :: "action list \<Rightarrow> (nat \<times> string) list" where
  "acknowledgments [] = []"
| "acknowledgments (SendToolResponse k i n # tr) = (k, i) # acknowledgments tr"
| "acknowledgments (_ # tr) = acknowledgments tr"

fun audio_sent :: "action list \<Rightarrow> pcm_blob list" where
  "audio_sent [] = []"
| "audio_sent (SendRealtimeInput k b # tr) = b # audio_sent tr"
| "audio_sent (_ # tr) = audio_sent tr"

fun is_log :: "action \<Rightarrow> bool" where
  "is_log (Console m) = True"
| "is_log _ = False"

fun unhandled_errors :: "action list \<Rightarrow> js_error list" where
  "unhandled_errors [] = []"
| "unhandled_errors (Unhandled e # tr) = e # unhandled_errors tr"
| "unhandled_errors (_ # tr) = unhandled_errors tr"

fun connections_opened :: "action list \<Rightarrow> nat list" where
  "connections_opened [] = []"
| "connections_opened (LiveConnect k # tr) = k # connections_opened tr"
| "connections_opened (_ # tr) = connections_opened tr"

section \<open>The telephony bridge (twilio-server.ts, the connection handler)\<close>

text \<open>
  The state of one connection: the handler's variables \<open>streamSid\<close> and
  \<open>geminiSession\<close>, and whether the socket's \<open>message\<close> and \<open>close\<close> listeners have been
  registered, which the handler does only after \<open>await sessionPromise\<close> has returned.
  Payloads are taken after base64 decoding; the remote session's audio is taken as the
  16-bit samples the buffer is read as.
\<close>

record bridge =
  streamSid :: string
  geminiSession :: "nat option"
  listening :: bool

text \<open>
  What the handler does to the socket and to the remote session.  \<open>GeminiToolResponse\<close>
  is the remote session's \<open>sendToolResponse\<close>, which no handler of this bridge calls.
\<close>

datatype tw_action =
    WsSend string "byte list"
  | GeminiRealtimeInput nat "int16 list"
  | GeminiToolResponse nat string
  | GeminiClose nat
  | WsClose
  | Log string
  | Uncaught js_error

text \<open>
  A socket message after \<open>JSON.parse\<close>: \<open>Unparsable\<close> is text that is not JSON, and a
  \<open>start\<close> or \<open>media\<close> event may lack its \<open>start\<close> or \<open>media\<close> object.
\<close>

datatype ws_message =
    Unparsable
  | StartMsg "string option"
  | MediaMsg "byte list option"
  | StopMsg
  | OtherMsg

record live_message =
  pcm24k :: "int16 list option"
  live_toolCall :: "tool_call option"

definition new_bridge :: bridge where
  "new_bridge = \<lparr>streamSid = [], geminiSession = None, listening = False\<rparr>"

definition connected :: "nat \<Rightarrow> bridge \<Rightarrow> bridge \<times> tw_action list" where
  "connected h c = (c\<lparr>geminiSession := Some h, listening := True\<rparr>, [])"

definition connect_failed :: "bridge \<Rightarrow> bridge \<times> tw_action list" where
  "connect_failed c = (c, [Log ''Failed to connect to Gemini'', WsClose])"

definition ws_on_message :: "ws_message \<Rightarrow> bridge \<Rightarrow> bridge \<times> tw_action list" where
  "ws_on_message message c =
     (if \<not> listening c then (c, [])
      else
        (case message of
           Unparsable \<Rightarrow> (c, [Uncaught SyntaxError])
         | StartMsg None \<Rightarrow> (c, [Uncaught TypeError])
         | StartMsg (Some sid) \<Rightarrow> (c\<lparr>streamSid := sid\<rparr>, [Log ''Stream started''])
         | MediaMsg payload \<Rightarrow>
             (case geminiSession c of
                None \<Rightarrow> (c, [])
              | Some h \<Rightarrow>
                  (case payload of
                     None \<Rightarrow> (c, [Uncaught TypeError])
                   | Some mulaw \<Rightarrow>
                       (c, [GeminiRealtimeInput h (resample8kTo16k (decodeMulaw mulaw))])))
         | StopMsg \<Rightarrow>
             (c, Log ''Stream stopped'' #
                 (case geminiSession c of Some h \<Rightarrow> [GeminiClose h] | None \<Rightarrow> []))
         | OtherMsg \<Rightarrow> (c, [])))"

definition ws_on_close :: "bridge \<Rightarrow> bridge \<times> tw_action list" where
  "ws_on_close c =
     (if \<not> listening c then (c, [])
      else (c, Log ''Twilio Disconnected'' #
                 (case geminiSession c of Some h \<Rightarrow> [GeminiClose h] | None \<Rightarrow> [])))"

definition live_onmessage :: "live_message \<Rightarrow> bridge \<Rightarrow> bridge \<times> tw_action list" where
  "live_onmessage msg c =
     (c, (case pcm24k msg of
            Some audio \<Rightarrow> [WsSend (streamSid c) (encodeMulaw (resample24kTo8k audio))]
          | None \<Rightarrow> []) @
         (case live_toolCall msg of Some tc \<Rightarrow> [Log ''Tool Call:''] | None \<Rightarrow> []))"

datatype tw_event =
    Connected nat
  | ConnectFailed
  | WsMessage ws_message
  | WsClosed
  | LiveMessage live_message

fun tw_step :: "tw_event \<Rightarrow> bridge \<Rightarrow> bridge \<times> tw_action list" where
  "tw_step (Connected h) c = connected h c"
| "tw_step ConnectFailed c = connect_failed c"
| "tw_step (WsMessage m) c = ws_on_message m c"
| "tw_step WsClosed c = ws_on_close c"
| "tw_step (LiveMessage m) c = live_onmessage m c"

fun tw_run :: "tw_event list \<Rightarrow> bridge \<Rightarrow> bridge \<times> tw_action list" where
  "tw_run [] c = (c, [])"
| "tw_run (e # es) c =
     (case tw_step e c of (c1, a1) \<Rightarrow> (case tw_run es c1 of (c2, a2) \<Rightarrow> (c2, a1 @ a2)))"

fun tw_acknowledgments :: "tw_action list \<Rightarrow> (nat \<times> string) list" where
  "tw_acknowledgments [] = []"
| "tw_acknowledgments (GeminiToolResponse h i # tr) = (h, i) # tw_acknowledgments tr"
| "tw_acknowledgments (_ # tr) = tw_acknowledgments tr"

fun tw_audio_sent :: "tw_action list \<Rightarrow> int16 list list" where
  "tw_audio_sent [] = []"
| "tw_audio_sent (GeminiRealtimeInput h pcm # tr) = pcm # tw_audio_sent tr"
| "tw_audio_sent (_ # tr) = tw_audio_sent tr"

section \<open>The playback scheduler of the simulator component\<close>

text \<open>
  The component's references and state: the output context and analyser (absent until
  \<open>initializeAudio\<close> has run), the cursor \<open>nextStartTimeRef\<close>, and the \<open>isConnected\<close> and
  \<open>status\<close>, \<open>assessment\<close> and \<open>error\<close> state.  Times are seconds on the device clock, as
  real numbers.  Of the \<open>CallStatus\<close> enumeration (types, not among the sources) the
  component uses two members.  The id, timestamp and duration of a call log come from
  \<open>Math.random\<close> and \<open>Date.now\<close>; they are given by the environment.
\<close>

datatype call_status = Idle | ConnectedStatus | Assessing | Finished

datatype CallStatus = SCAM_DETECTED | LEGITIMATE

record call_log =
  logId :: string
  callerId :: string
  logTimestamp :: nat
  logDuration :: nat
  logStatus :: CallStatus
  summary :: "string option"
  confidenceScore :: "int option"

record log_env =
  randomId :: string
  now :: nat
  randomDuration :: nat

record simulator =
  audioContextRef :: "nat option"
  analyserRef :: "nat option"
  nextStartTimeRef :: real
  isConnected :: bool
  status :: call_status
  assessment :: "tool_args option"
  error :: "string option"

datatype sim_action = SourceStart real | ServiceStop | AddCallLog call_log | SetTimeout nat

text \<open>
  \<open>onAudioData\<close> for a buffer of the given duration, when the context's
  \<open>currentTime\<close> is \<open>currentTime\<close>.
\<close>

definition onAudioData :: "real \<Rightarrow> real \<Rightarrow> simulator \<Rightarrow> simulator \<times> sim_action list" where
  "onAudioData currentTime duration sim =
     (if audioContextRef sim = None \<or> analyserRef sim = None then (sim, [])
      else
        (let startTime = max (nextStartTimeRef sim) currentTime
         in (sim\<lparr>nextStartTimeRef := startTime + duration\<rparr>, [SourceStart startTime])))"

definition handleHangUp :: "simulator \<Rightarrow> simulator \<times> sim_action list" where
  "handleHangUp sim =
     (sim\<lparr>isConnected := False, status := Idle, nextStartTimeRef := 0\<rparr>, [ServiceStop])"

text \<open>
  The \<open>onToolCall\<close> callback of the component: it records the verdict, marks the call
  finished, adds a call log and sets the timer that calls \<open>handleHangUp\<close> 4000 ms later.
\<close>

definition onToolCall :: "log_env \<Rightarrow> tool_args \<Rightarrow> simulator \<Rightarrow> simulator \<times> sim_action list" where
  "onToolCall env response sim =
     (sim\<lparr>assessment := Some response, status := Finished\<rparr>,
      [AddCallLog \<lparr>logId = randomId env, callerId = ''Unknown (Simulated)'',
         logTimestamp = now env, logDuration = randomDuration env,
         logStatus = (if verdict response = Some ''scam'' then SCAM_DETECTED else LEGITIMATE),
         summary = reason response, confidenceScore = confidence response\<rparr>,
       SetTimeout 4000])"

text \<open>The verdicts the bridge delivers, handed to the component's callback in order.\<close>

fun notify_verdicts :: "log_env \<Rightarrow> tool_args list \<Rightarrow> simulator \<Rightarrow> simulator \<times> sim_action list" where
  "notify_verdicts env [] sim = (sim, [])"
| "notify_verdicts env (a # as) sim =
     (case onToolCall env a sim of (sim1, x) \<Rightarrow>
        (case notify_verdicts env as sim1 of (sim2, y) \<Rightarrow> (sim2, x @ y)))"

definition onDisconnect :: "simulator \<Rightarrow> simulator \<times> sim_action list" where
  "onDisconnect sim = (sim\<lparr>isConnected := False, status := Idle\<rparr>, [])"

definition onError :: "string \<Rightarrow> simulator \<Rightarrow> simulator \<times> sim_action list" where
  "onError message sim =
     (sim\<lparr>error := Some message, isConnected := False, status := Idle\<rparr>, [])"

definition report_outcome_calls :: "function_call list \<Rightarrow> function_call list" where
  "report_outcome_calls calls = filter (\<lambda>c. call_name c = ''report_outcome'') calls"

text \<open>Example invocations and messages.\<close>

definition scam_call :: function_call where
  "scam_call = \<lparr>call_id = ''call-1'', call_name = ''report_outcome'',
     call_args = \<lparr>verdict = Some ''scam'', reason = Some ''IRS gift-card demand'',
       confidence = Some 98\<rparr>\<rparr>"

definition safe_call :: function_call where
  "safe_call = \<lparr>call_id = ''call-2'', call_name = ''report_outcome'',
     call_args = \<lparr>verdict = Some ''safe'', reason = Some ''family member'',
       confidence = Some 90\<rparr>\<rparr>"

definition malformed_call :: function_call where
  "malformed_call = \<lparr>call_id = ''call-3'', call_name = ''report_outcome'',
     call_args = \<lparr>verdict = None, reason = Some ''unclear'', confidence = Some 50\<rparr>\<rparr>"

definition tool_message :: "function_call list \<Rightarrow> server_message" where
  "tool_message calls = \<lparr>audioData = None, toolCall = Some (ToolCall (Some calls))\<rparr>"

definition established :: service where
  "established = fst (run [StartSession (Proceeds False 48000), Open 0, Resolved 0] new_service)"

definition opened :: service where
  "opened = fst (run [StartSession (Proceeds False 48000), Open 0] new_service)"

definition playing :: simulator where
  "playing = \<lparr>audioContextRef = Some 0, analyserRef = Some 0, nextStartTimeRef = 0,
     isConnected = True, status = ConnectedStatus, assessment = None, error = None\<rparr>"

definition sample_env :: log_env where
  "sample_env = \<lparr>randomId = ''k3x9'', now = 1700000000000, randomDuration = 45\<rparr>"


definition refused :: service where
  "refused = fst (run [StartSession (Proceeds False 48000), Refused 0] new_service)"


text \<open>Connections are only added, and a fulfilled promise stays fulfilled.\<close>

definition grows :: "service \<Rightarrow> service \<Rightarrow> bool" where
  "grows s s' \<longleftrightarrow> length (conns s) \<le> length (conns s') \<and>
     (\<forall>j<length (conns s). promise (conns s ! j) = Fulfilled \<longrightarrow>
         promise (conns s' ! j) = Fulfilled)"

section \<open>Array-filling loops\<close>

lemma fill_loop_length:
  "length (fold (\<lambda>i t. t[i := f i]) [0..<n] t) = length t"
  by (induction n) simp_all

lemma fill_loop_nth:
  "i < n \<Longrightarrow> n \<le> length t \<Longrightarrow> fold (\<lambda>i t. t[i := f i]) [0..<n] t ! i = f i"
proof (induction n)
  case 0
  then show ?case by simp
next
  case (Suc n)
  show ?case
  proof (cases "i = n")
    case True
    with Suc.prems show ?thesis by (simp add: fill_loop_length)
  next
    case False
    with Suc have "fold (\<lambda>i t. t[i := f i]) [0..<n] t ! i = f i" by simp
    with False show ?thesis by simp
  qed
qed

lemma fill_loop_map:
  "fold (\<lambda>i t. t[i := f i]) [0..<n] (replicate n z) = map f [0..<n]"
  by (rule nth_equalityI) (simp_all add: fill_loop_length fill_loop_nth)

section \<open>The decode table\<close>

lemma unat_byte_less: "unat (b :: byte) < 256"
  using unsigned_less [of b, where 'a = nat] by simp


lemma sign_bit_nat: "n < 256 \<Longrightarrow> (int n AND 0x80 \<noteq> 0) = (128 \<le> n)"
proof -
  assume n: "n < 256"
  have "int n AND 2 ^ 7 = 0 \<longleftrightarrow> \<not> bit (int n) 7"
    by (rule and_exp_eq_0_iff_not_bit)
  moreover have "bit (int n) 7 \<longleftrightarrow> odd (int n div 128)"
    by (simp add: bit_iff_odd)
  moreover have "odd (int n div 128) \<longleftrightarrow> 128 \<le> n"
  proof (cases "128 \<le> n")
    case True
    with n have "int n div 128 = 1" by simp
    with True show ?thesis by simp
  next
    case False
    then have "int n div 128 = 0" by simp
    with False show ?thesis by simp
  qed
  ultimately show ?thesis by simp
qed
lemma exponent_field_nat: "drop_bit 4 (int n) AND 0x07 = int ((n div 16) mod 8)"
proof -
  have "drop_bit 4 (int n) AND mask 3 = take_bit 3 (drop_bit 4 (int n))"
    by (simp add: take_bit_eq_mask)
  also have "\<dots> = int ((n div 16) mod 8)"
    by (simp add: take_bit_eq_mod drop_bit_eq_div zdiv_int zmod_int)
  finally show ?thesis by (simp add: mask_eq_exp_minus_1)
qed

lemma mantissa_field_nat: "int n AND 0x0f = int (n mod 16)"
proof -
  have "int n AND mask 4 = take_bit 4 (int n)"
    by (simp add: take_bit_eq_mask)
  also have "\<dots> = int (n mod 16)"
    by (simp add: take_bit_eq_mod zmod_int)
  finally show ?thesis by (simp add: mask_eq_exp_minus_1)
qed

lemma entry_expand: "mulaw_entry (unat (b::byte)) = companding_expand b"
  unfolding mulaw_entry_def companding_expand_def Let_def
    sign_bit_nat [OF unat_byte_less] exponent_field_nat mantissa_field_nat
  by (simp add: push_bit_eq_mult)


lemma expand_range: "- 32768 \<le> companding_expand b \<and> companding_expand b < 32768"
proof -
  define e where "e = (unat b div 16) mod 8"
  define m where "m = int (unat b mod 16)"
  have "e < 8" unfolding e_def by simp
  then have "e \<le> 7" by simp
  then have "(2::int) ^ e \<le> 2 ^ 7" by (rule power_increasing) simp
  then have p: "(2::int) ^ e \<le> 128" by simp
  have p1: "(1::int) \<le> 2 ^ e" by simp
  have "unat b mod 16 < 16" by simp
  then have m: "0 \<le> m" "m \<le> 15" unfolding m_def by simp_all
  have "(m * 8 + 132) * 2 ^ e \<le> 252 * 128"
    by (rule mult_mono) (use m p in simp_all)
  moreover have "132 * 1 \<le> (m * 8 + 132) * 2 ^ e"
    by (rule mult_mono) (use m p1 in simp_all)
  ultimately have "0 \<le> (m * 8 + 132) * 2 ^ e - 132 \<and> (m * 8 + 132) * 2 ^ e - 132 < 32768"
    by simp
  then show ?thesis
    unfolding companding_expand_def Let_def e_def [symmetric] m_def [symmetric]
    by (simp split: if_splits)
qed
lemma MU_LAW_TABLE_map: "MU_LAW_TABLE = map (\<lambda>i. word_of_int (mulaw_entry i)) [0..<256]"
  unfolding MU_LAW_TABLE_def by (rule fill_loop_map)

lemma table_entry: "sint (MU_LAW_TABLE ! unat (b::byte)) = companding_expand b"
proof -
  have "unat b < length [0..<256]"
    using unat_byte_less [of b] by simp
  then have "MU_LAW_TABLE ! unat b = word_of_int (mulaw_entry ([0..<256] ! unat b))"
    unfolding MU_LAW_TABLE_map by (rule nth_map)
  also have "[0..<256] ! unat b = unat b"
    using unat_byte_less [of b] by simp
  finally have "sint (MU_LAW_TABLE ! unat b) = sint (word_of_int (companding_expand b) :: int16)"
    by (simp only: entry_expand)
  also have "\<dots> = companding_expand b"
    using expand_range [of b] by (simp add: sint_sbintrunc' signed_take_bit_int_eq_self_iff)
  finally show ?thesis .
qed


lemma decodeMulaw_map: "decodeMulaw data = map (\<lambda>b. MU_LAW_TABLE ! unat b) data"
proof -
  have "decodeMulaw data = map (\<lambda>i. MU_LAW_TABLE ! unat (data ! i)) [0..<length data]"
    unfolding decodeMulaw_def by (rule fill_loop_map)
  also have "\<dots> = map (\<lambda>b. MU_LAW_TABLE ! unat b) (map ((!) data) [0..<length data])"
    by (simp add: comp_def)
  finally show ?thesis by (simp add: map_nth)
qed

lemma encodeMulaw_map: "encodeMulaw pcm = map encode_sample pcm"
proof -
  have "encodeMulaw pcm = map (\<lambda>i. encode_sample (pcm ! i)) [0..<length pcm]"
    unfolding encodeMulaw_def by (rule fill_loop_map)
  also have "\<dots> = map encode_sample (map ((!) pcm) [0..<length pcm])"
    by (simp add: comp_def)
  finally show ?thesis by (simp add: map_nth)
qed

lemma roundtrip_sint:
  "map sint (decodeMulaw (encodeMulaw pcm)) = map (\<lambda>x. companding_expand (encode_sample x)) pcm"
  by (simp add: decodeMulaw_map encodeMulaw_map table_entry comp_def)

section \<open>Resampling loops\<close>

lemma upsample_loop:
  "k \<le> length xs \<Longrightarrow> length t = length xs * 2 \<Longrightarrow>
   length (fold (\<lambda>i output. (output[i * 2 := xs ! i])[i * 2 + 1 := xs ! i]) [0..<k] t) = length t \<and>
   (\<forall>j<k * 2. fold (\<lambda>i output. (output[i * 2 := xs ! i])[i * 2 + 1 := xs ! i]) [0..<k] t ! j
       = xs ! (j div 2))"
proof (induction k)
  case 0
  then show ?case by simp
next
  case (Suc k)
  let ?out = "fold (\<lambda>i output. (output[i * 2 := xs ! i])[i * 2 + 1 := xs ! i]) [0..<k] t"
  from Suc have len: "length ?out = length t"
    and old: "\<And>j. j < k * 2 \<Longrightarrow> ?out ! j = xs ! (j div 2)" by simp_all
  have step: "fold (\<lambda>i output. (output[i * 2 := xs ! i])[i * 2 + 1 := xs ! i]) [0..<Suc k] t
      = (?out[k * 2 := xs ! k])[k * 2 + 1 := xs ! k]" by simp
  show ?case
  proof (intro conjI allI impI)
    show "length (fold (\<lambda>i output. (output[i * 2 := xs ! i])[i * 2 + 1 := xs ! i]) [0..<Suc k] t) = length t"
      unfolding step using len by simp
  next
    fix j assume j: "j < Suc k * 2"
    have inb: "k * 2 + 1 < length ?out" using Suc.prems len by simp
    consider "j < k * 2" | "j = k * 2" | "j = k * 2 + 1" using j by force
    then show "fold (\<lambda>i output. (output[i * 2 := xs ! i])[i * 2 + 1 := xs ! i]) [0..<Suc k] t ! j
        = xs ! (j div 2)"
    proof cases
      case 1
      then show ?thesis unfolding step using old [of j] by simp
    next
      case 2
      then show ?thesis unfolding step using inb by simp
    next
      case 3
      then show ?thesis unfolding step using inb by simp
    qed
  qed
qed

lemma downsample_map:
  "resample24kTo8k ys = map (\<lambda>i. ys ! (i * 3)) [0..<length ys div 3]"
  unfolding resample24kTo8k_def Let_def by (rule fill_loop_map)


section \<open>Codec properties\<close>

text \<open>
  C7. The table has an entry for each of the 256 byte values, so the lookup in
  \<open>decodeMulaw\<close> is always inside the table, and the entry of a byte is the expansion
  of its sign bit, 3-bit exponent and 4-bit mantissa with bias 0x84:
  \<open>sign * (((mantissa << 3) + bias) << exponent - bias)\<close>.  Decoding a frame keeps its
  length and maps every byte to that expansion.
\<close>

theorem decodeMulaw_total_table_law:
  fixes b :: byte and data :: "byte list"
  shows "length MU_LAW_TABLE = 256 \<and> unat b < length MU_LAW_TABLE \<and>
    sint (MU_LAW_TABLE ! unat b) = companding_expand b \<and>
    length (decodeMulaw data) = length data \<and>
    map sint (decodeMulaw data) = map companding_expand data"
proof -
  have len: "length MU_LAW_TABLE = 256"
    unfolding MU_LAW_TABLE_def by (simp only: fill_loop_length length_replicate)
  have inside: "unat b < length MU_LAW_TABLE"
    using unat_byte_less [of b] len by simp
  have frame: "map sint (decodeMulaw data) = map companding_expand data"
    by (simp add: decodeMulaw_map table_entry comp_def)
  have "length (decodeMulaw data) = length data"
    by (simp add: decodeMulaw_map)
  with len inside frame table_entry [of b] show ?thesis by blast
qed

text \<open>
  C6. \<open>resample8kTo16k\<close> returns twice as many samples as it is given, with
  \<open>output[2i] = output[2i+1] = input[i]\<close>; \<open>resample24kTo8k\<close> returns
  \<open>floor(len / 3)\<close> samples, with \<open>output[i] = input[3i]\<close>, every such read being
  inside the input.
\<close>

theorem resample_laws:
  "length (resample8kTo16k xs) = 2 * length xs \<and>
   (\<forall>i<length xs. resample8kTo16k xs ! (2 * i) = xs ! i \<and> resample8kTo16k xs ! (2 * i + 1) = xs ! i) \<and>
   length (resample24kTo8k ys) = length ys div 3 \<and>
   (\<forall>i<length ys div 3. 3 * i < length ys \<and> resample24kTo8k ys ! i = ys ! (3 * i))"
proof -
  have up: "length (resample8kTo16k xs) = length xs * 2 \<and>
      (\<forall>j<length xs * 2. resample8kTo16k xs ! j = xs ! (j div 2))"
    unfolding resample8kTo16k_def
    using upsample_loop [of "length xs" xs "replicate (length xs * 2) 0"] by simp
  have a: "length (resample8kTo16k xs) = 2 * length xs" using up by simp
  have b: "\<forall>i<length xs. resample8kTo16k xs ! (2 * i) = xs ! i \<and> resample8kTo16k xs ! (2 * i + 1) = xs ! i"
  proof (intro allI impI)
    fix i assume i: "i < length xs"
    then have "2 * i < length xs * 2" "2 * i + 1 < length xs * 2" by simp_all
    with up have "resample8kTo16k xs ! (2 * i) = xs ! ((2 * i) div 2)"
      "resample8kTo16k xs ! (2 * i + 1) = xs ! ((2 * i + 1) div 2)" by blast+
    then show "resample8kTo16k xs ! (2 * i) = xs ! i \<and> resample8kTo16k xs ! (2 * i + 1) = xs ! i"
      by simp
  qed
  have c: "length (resample24kTo8k ys) = length ys div 3" by (simp add: downsample_map)
  have d: "\<forall>i<length ys div 3. 3 * i < length ys \<and> resample24kTo8k ys ! i = ys ! (3 * i)"
  proof (intro allI impI conjI)
    fix i assume i: "i < length ys div 3"
    then show "3 * i < length ys" by simp
    from i show "resample24kTo8k ys ! i = ys ! (3 * i)"
      by (simp add: downsample_map mult.commute)
  qed
  from a b c d show ?thesis by blast
qed


theorem resample_laws_witness:
  "length (resample8kTo16k [10, 20]) = 4 \<and>
   resample8kTo16k [10, 20] ! 2 = 20 \<and> resample8kTo16k [10, 20] ! 3 = 20 \<and>
   length (resample24kTo8k [1, 2, 3, 4, 5, 6, 7]) = 2 \<and>
   resample24kTo8k [1, 2, 3, 4, 5, 6, 7] ! 1 = 4"
proof -
  note r = resample_laws [of "[10, 20]" "[1, 2, 3, 4, 5, 6, 7]"]
  from r have up: "\<And>i. i < length [10, 20 :: int16] \<Longrightarrow>
      resample8kTo16k [10, 20] ! (2 * i) = [10, 20] ! i \<and>
      resample8kTo16k [10, 20] ! (2 * i + 1) = [10, 20] ! i" by blast
  from r have down: "\<And>i. i < length [1, 2, 3, 4, 5, 6, 7 :: int16] div 3 \<Longrightarrow>
      resample24kTo8k [1, 2, 3, 4, 5, 6, 7] ! i = [1, 2, 3, 4, 5, 6, 7] ! (3 * i)" by blast
  from r have l1: "length (resample8kTo16k [10, 20]) = 4" by simp
  from r have l2: "length (resample24kTo8k [1, 2, 3, 4, 5, 6, 7]) = 2" by simp
  have "resample8kTo16k [10, 20] ! (2 * 1) = [10, 20] ! 1 \<and>
      resample8kTo16k [10, 20] ! (2 * 1 + 1) = [10, 20] ! 1"
    by (rule up) simp
  then have u: "resample8kTo16k [10, 20] ! 2 = 20 \<and> resample8kTo16k [10, 20] ! 3 = 20"
    by simp
  have "resample24kTo8k [1, 2, 3, 4, 5, 6, 7] ! 1 = [1, 2, 3, 4, 5, 6, 7 :: int16] ! (3 * 1)"
    by (rule down) simp
  then have d: "resample24kTo8k [1, 2, 3, 4, 5, 6, 7] ! 1 = 4" by simp
  from l1 u l2 d show ?thesis by blast
qed

text \<open>
  C1. The round trip is not within one quantization step.  \<open>encodeMulaw\<close> takes the
  first \<open>exp\<close> with \<open>sample < (1 << (exp + 3))\<close> and stores the one's complement of the
  packed byte; \<open>MU_LAW_TABLE\<close> expands the byte's fields as they are, without
  complementing it back.  The sample 32767 is encoded in band 7 (step 1024) as byte 143
  and decoded as -120; the sample 0 is encoded in band 5 (step 256) as byte 175 and
  decoded as -876.
\<close>

theorem roundtrip_outside_step:
  "encodeMulaw [32767] = [143] \<and> map sint (decodeMulaw (encodeMulaw [32767])) = [- 120] \<and>
   quant_step (band 32767) = 1024 \<and>
   \<not> \<bar>sint (decodeMulaw (encodeMulaw [32767]) ! 0) - sint (32767 :: int16)\<bar>
        \<le> quant_step (band 32767) \<and>
   encodeMulaw [0] = [175] \<and> map sint (decodeMulaw (encodeMulaw [0])) = [- 876] \<and>
   quant_step (band 0) = 256 \<and>
   \<not> \<bar>sint (decodeMulaw (encodeMulaw [0]) ! 0) - sint (0 :: int16)\<bar> \<le> quant_step (band 0)"
proof -
  have e1: "encode_sample 32767 = 143" by code_simp
  have e2: "encode_sample 0 = 175" by code_simp
  have b1: "band 32767 = 7" by code_simp
  have b2: "band 0 = 5" by code_simp
  have c1: "companding_expand 143 = - 120" by code_simp
  have c2: "companding_expand 175 = - 876" by code_simp
  have r1: "map sint (decodeMulaw (encodeMulaw [32767])) = [- 120]"
    unfolding roundtrip_sint by (simp add: e1 c1)
  have r2: "map sint (decodeMulaw (encodeMulaw [0])) = [- 876]"
    unfolding roundtrip_sint by (simp add: e2 c2)
  have n1: "sint (decodeMulaw (encodeMulaw [32767]) ! 0) = - 120"
    using r1 by (simp add: decodeMulaw_map encodeMulaw_map)
  have n2: "sint (decodeMulaw (encodeMulaw [0]) ! 0) = - 876"
    using r2 by (simp add: decodeMulaw_map encodeMulaw_map)
  have s1: "quant_step (band 32767) = 1024" by (simp add: b1 quant_step_def)
  have s2: "quant_step (band 0) = 256" by (simp add: b2 quant_step_def)
  have m1: "encodeMulaw [32767] = [143]" by (simp add: encodeMulaw_map e1)
  have m2: "encodeMulaw [0] = [175]" by (simp add: encodeMulaw_map e2)
  have d1: "\<not> \<bar>sint (decodeMulaw (encodeMulaw [32767]) ! 0) - sint (32767 :: int16)\<bar>
        \<le> quant_step (band 32767)"
    unfolding n1 s1 by simp
  have d2: "\<not> \<bar>sint (decodeMulaw (encodeMulaw [0]) ! 0) - sint (0 :: int16)\<bar> \<le> quant_step (band 0)"
    unfolding n2 s2 by simp
  from m1 r1 s1 d1 m2 r2 s2 d2 show ?thesis by blast
qed

section \<open>The interactive bridge: example states and traces\<close>

lemma cleanup_conns [simp]: "conns (fst (cleanup s)) = conns s"
  by (simp add: cleanup_def Let_def split: option.splits)

lemma cleanup_released:
  "stream (fst (cleanup s)) = None \<and> inputAudioContext (fst (cleanup s)) = None \<and>
   \<not> isActive (fst (cleanup s))"
  by (simp add: cleanup_def Let_def split: option.splits)

lemma established_run:
  "run [StartSession (Proceeds False 48000), Open 0, Resolved 0] new_service =
     (\<lparr>session = Some 0, inputAudioContext = Some 0, inputSource = Some 0,
       processor = Some 0, stream = Some 0, isActive = True,
       conns = [\<lparr>promise = Fulfilled, reactions = [], actualSampleRate = 48000,
                 capturing = True\<rparr>],
       fresh = 1\<rparr>,
      [GetUserMedia, NewAudioContext 0, LiveConnect 0, Console ''Gemini Live Connected'',
       OnConnect, CreateMediaStreamSource 0, CreateScriptProcessor 0, ConnectNodes 0])"
  by (simp add: new_service_def startSession_def onopen_def resolved_def Let_def)

lemma established_eq:
  "established =
     \<lparr>session = Some 0, inputAudioContext = Some 0, inputSource = Some 0,
       processor = Some 0, stream = Some 0, isActive = True,
       conns = [\<lparr>promise = Fulfilled, reactions = [], actualSampleRate = 48000,
                 capturing = True\<rparr>],
       fresh = 1\<rparr>"
  unfolding established_def established_run by simp

lemma established_facts:
  "0 < length (conns established)" "promise (conns established ! 0) = Fulfilled"
  "isActive established" "capturing (conns established ! 0)"
  by (simp_all add: established_eq)

lemma opened_eq:
  "opened =
     \<lparr>session = None, inputAudioContext = Some 0, inputSource = Some 0,
       processor = Some 0, stream = Some 0, isActive = True,
       conns = [\<lparr>promise = Pending, reactions = [], actualSampleRate = 48000,
                 capturing = True\<rparr>],
       fresh = 1\<rparr>"
  by (simp add: opened_def new_service_def startSession_def onopen_def Let_def)



lemma unhandled_errors_append:
  "unhandled_errors (xs @ ys) = unhandled_errors xs @ unhandled_errors ys"
  by (induction xs rule: unhandled_errors.induct) simp_all

lemma verdicts_delivered_append:
  "verdicts_delivered (xs @ ys) = verdicts_delivered xs @ verdicts_delivered ys"
  by (induction xs rule: verdicts_delivered.induct) simp_all

lemma acknowledgments_append:
  "acknowledgments (xs @ ys) = acknowledgments xs @ acknowledgments ys"
  by (induction xs rule: acknowledgments.induct) simp_all

lemma audio_sent_append: "audio_sent (xs @ ys) = audio_sent xs @ audio_sent ys"
  by (induction xs rule: audio_sent.induct) simp_all

lemma performed_trace:
  "connections_opened (map (perform k) rs) = []"
  "unhandled_errors (map (perform k) rs) = []"
  "verdicts_delivered (map (perform k) rs) = []"
  "\<not> list_ex is_log (map (perform k) rs)"
proof (induction rs)
  case Nil
  {
    case 1 show ?case by simp
  next
    case 2 show ?case by simp
  next
    case 3 show ?case by simp
  next
    case 4 show ?case by simp
  }
next
  case (Cons r rs)
  {
    case 1 with Cons show ?case by (cases r) simp_all
  next
    case 2 with Cons show ?case by (cases r) simp_all
  next
    case 3 with Cons show ?case by (cases r) simp_all
  next
    case 4 with Cons show ?case by (cases r) simp_all
  }
qed

lemma rejections_trace:
  "connections_opened (map (\<lambda>r. Unhandled Rejection) rs) = []"
  "unhandled_errors (map (\<lambda>r. Unhandled Rejection) rs) = replicate (length rs) Rejection"
  "verdicts_delivered (map (\<lambda>r. Unhandled Rejection) rs) = []"
  "acknowledgments (map (\<lambda>r. Unhandled Rejection) rs) = []"
  "audio_sent (map (\<lambda>r. Unhandled Rejection) rs) = []"
  "\<not> list_ex is_log (map (\<lambda>r. Unhandled Rejection) rs)"
  by (induction rs) simp_all

lemma callbacks_trace:
  "connections_opened (map (\<lambda>c. OnToolCall (call_args c)) cs) = []"
  "unhandled_errors (map (\<lambda>c. OnToolCall (call_args c)) cs) = []"
  "verdicts_delivered (map (\<lambda>c. OnToolCall (call_args c)) cs) = map call_args cs"
  "acknowledgments (map (\<lambda>c. OnToolCall (call_args c)) cs) = []"
  "\<not> list_ex is_log (map (\<lambda>c. OnToolCall (call_args c)) cs)"
  by (induction cs) simp_all

lemma acks_of_performed:
  "acknowledgments (map (perform k) (map (\<lambda>c. SendAck (call_id c) (call_name c)) cs))
     = map (\<lambda>c. (k, call_id c)) cs"
  by (induction cs) simp_all

lemma cleanup_trace:
  "connections_opened (snd (cleanup s)) = []"
  "unhandled_errors (snd (cleanup s)) = []"
  "acknowledgments (snd (cleanup s)) = []"
  by (simp_all add: cleanup_def Let_def split: option.splits)

section \<open>The interactive bridge: starting and stopping\<close>

text \<open>
  C5. A session is started and established, then \<open>stopSession\<close> is called twice.  The
  first call closes the session, stops the tracks, disconnects both nodes and closes the
  context.  The second call closes the session handle again and disconnects both nodes
  again: \<open>cleanup\<close> clears \<open>stream\<close> and \<open>inputAudioContext\<close> after releasing them, but
  not \<open>processor\<close> and \<open>inputSource\<close>, and \<open>session\<close> is never cleared.
\<close>

theorem second_stop_releases_again:
  "snd (run [StartSession (Proceeds False 48000), Open 0, Resolved 0,
             StopSession False, StopSession False] new_service) =
     [GetUserMedia, NewAudioContext 0, LiveConnect 0, Console ''Gemini Live Connected'',
      OnConnect, CreateMediaStreamSource 0, CreateScriptProcessor 0, ConnectNodes 0,
      SessionClose 0, TracksStop 0, SourceDisconnect 0, ProcessorDisconnect 0, ContextClose 0,
      SessionClose 0, SourceDisconnect 0, ProcessorDisconnect 0]"
  by (simp add: new_service_def startSession_def onopen_def resolved_def stopSession_def
      cleanup_def Let_def)

section \<open>The interactive bridge: reactions on the session promise\<close>

lemma then_session_fulfilled:
  "promise (conns s ! k) = Fulfilled \<Longrightarrow> then_session k rs s = (s, map (perform k) rs)"
  by (simp add: then_session_def)

lemma then_session_pending:
  "promise (conns s ! k) = Pending \<Longrightarrow>
     then_session k rs s =
       (s\<lparr>conns := (conns s)[k := (conns s ! k)\<lparr>reactions := reactions (conns s ! k) @ rs\<rparr>]\<rparr>, [])"
  by (simp add: then_session_def)

lemma then_session_rejected:
  "promise (conns s ! k) = Rejected \<Longrightarrow>
     then_session k rs s = (s, map (\<lambda>r. Unhandled Rejection) rs)"
  by (simp add: then_session_def)

lemma then_session_frame:
  "isActive (fst (then_session k rs s)) = isActive s"
  "length (conns (fst (then_session k rs s))) = length (conns s)"
  "verdicts_delivered (snd (then_session k rs s)) = []"
  "connections_opened (snd (then_session k rs s)) = []"
  "\<not> list_ex is_log (snd (then_session k rs s))"
  by (cases "promise (conns s ! k)";
      simp add: then_session_def performed_trace rejections_trace)+

lemma then_session_promise:
  "k < length (conns s) \<Longrightarrow>
     promise (conns (fst (then_session k rs s)) ! k) = promise (conns s ! k)"
  by (cases "promise (conns s ! k)") (simp_all add: then_session_def)

lemma then_session_unhandled:
  "promise (conns s ! k) \<noteq> Rejected \<Longrightarrow> unhandled_errors (snd (then_session k rs s)) = []"
  "promise (conns s ! k) = Rejected \<Longrightarrow>
     unhandled_errors (snd (then_session k rs s)) = replicate (length rs) Rejection"
  by (cases "promise (conns s ! k)";
      simp add: then_session_def performed_trace rejections_trace)+

section \<open>The interactive bridge: tool calls\<close>

lemma tool_loop_eq:
  "tool_loop calls =
     (map (\<lambda>c. OnToolCall (call_args c)) (report_outcome_calls calls),
      map (\<lambda>c. SendAck (call_id c) (call_name c)) (report_outcome_calls calls))"
  by (induction calls) (simp_all add: report_outcome_calls_def)

text \<open>
  What one message with a list of function calls does: the audio callback if there is
  audio, the verdict callbacks, then the acknowledgments as the session promise allows.
\<close>

lemma onmessage_calls:
  assumes "toolCall msg = Some (ToolCall (Some calls))"
  obtains audio where
    "onmessage k msg s =
       (fst (then_session k (map (\<lambda>c. SendAck (call_id c) (call_name c))
               (report_outcome_calls calls)) s),
        audio @ map (\<lambda>c. OnToolCall (call_args c)) (report_outcome_calls calls) @
        snd (then_session k (map (\<lambda>c. SendAck (call_id c) (call_name c))
               (report_outcome_calls calls)) s))"
    "audio = [] \<or> (\<exists>d. audio = [OnAudioData (decodeAudioData d)])"
proof -
  define audio where "audio = (case audioData msg of
      Some d \<Rightarrow> if d \<noteq> [] then [OnAudioData (decodeAudioData d)] else [] | None \<Rightarrow> [])"
  have "onmessage k msg s =
       (fst (then_session k (map (\<lambda>c. SendAck (call_id c) (call_name c))
               (report_outcome_calls calls)) s),
        audio @ map (\<lambda>c. OnToolCall (call_args c)) (report_outcome_calls calls) @
        snd (then_session k (map (\<lambda>c. SendAck (call_id c) (call_name c))
               (report_outcome_calls calls)) s))"
    unfolding onmessage_def Let_def audio_def [symmetric]
    using assms by (simp add: tool_loop_eq split_beta)
  moreover have "audio = [] \<or> (\<exists>d. audio = [OnAudioData (decodeAudioData d)])"
    unfolding audio_def by (auto split: option.splits)
  ultimately show ?thesis using that by blast
qed

lemma onmessage_summary:
  assumes "toolCall msg = Some (ToolCall (Some calls))"
  shows "verdicts_delivered (snd (onmessage k msg s)) = map call_args (report_outcome_calls calls)"
    and "\<not> list_ex is_log (snd (onmessage k msg s))"
    and "isActive (fst (onmessage k msg s)) = isActive s"
    and "length (conns (fst (onmessage k msg s))) = length (conns s)"
    and "k < length (conns s) \<Longrightarrow>
          promise (conns (fst (onmessage k msg s)) ! k) = promise (conns s ! k)"
    and "promise (conns s ! k) \<noteq> Rejected \<Longrightarrow> unhandled_errors (snd (onmessage k msg s)) = []"
    and "promise (conns s ! k) = Rejected \<Longrightarrow>
          unhandled_errors (snd (onmessage k msg s)) =
            replicate (length (report_outcome_calls calls)) Rejection"
proof -
  from assms obtain audio where
    m: "onmessage k msg s =
       (fst (then_session k (map (\<lambda>c. SendAck (call_id c) (call_name c))
               (report_outcome_calls calls)) s),
        audio @ map (\<lambda>c. OnToolCall (call_args c)) (report_outcome_calls calls) @
        snd (then_session k (map (\<lambda>c. SendAck (call_id c) (call_name c))
               (report_outcome_calls calls)) s))"
    and au: "audio = [] \<or> (\<exists>d. audio = [OnAudioData (decodeAudioData d)])"
    by (rule onmessage_calls)
  from au have va: "verdicts_delivered audio = []" and ua: "unhandled_errors audio = []"
    and la: "\<not> list_ex is_log audio" by auto
  show "verdicts_delivered (snd (onmessage k msg s)) = map call_args (report_outcome_calls calls)"
    by (simp add: m verdicts_delivered_append va callbacks_trace then_session_frame)
  show "\<not> list_ex is_log (snd (onmessage k msg s))"
    using la by (simp add: m callbacks_trace then_session_frame)
  show "isActive (fst (onmessage k msg s)) = isActive s"
    by (simp add: m then_session_frame)
  show "length (conns (fst (onmessage k msg s))) = length (conns s)"
    by (simp add: m then_session_frame)
  show "promise (conns (fst (onmessage k msg s)) ! k) = promise (conns s ! k)"
    if "k < length (conns s)"
    using that by (simp add: m then_session_promise)
  show "unhandled_errors (snd (onmessage k msg s)) = []" if "promise (conns s ! k) \<noteq> Rejected"
    using that by (simp add: m unhandled_errors_append ua callbacks_trace then_session_unhandled)
  show "unhandled_errors (snd (onmessage k msg s)) =
      replicate (length (report_outcome_calls calls)) Rejection"
    if "promise (conns s ! k) = Rejected"
    using that by (simp add: m unhandled_errors_append ua callbacks_trace then_session_unhandled)
qed

lemma onmessage_acks:
  assumes "toolCall msg = Some (ToolCall (Some calls))"
  shows "promise (conns s ! k) = Fulfilled \<Longrightarrow>
      acknowledgments (snd (onmessage k msg s)) =
        map (\<lambda>c. (k, call_id c)) (report_outcome_calls calls)"
    and "promise (conns s ! k) \<noteq> Fulfilled \<Longrightarrow> acknowledgments (snd (onmessage k msg s)) = []"
    and "promise (conns s ! k) = Pending \<Longrightarrow>
      fst (onmessage k msg s) =
        s\<lparr>conns := (conns s)[k := (conns s ! k)\<lparr>reactions := reactions (conns s ! k) @
          map (\<lambda>c. SendAck (call_id c) (call_name c)) (report_outcome_calls calls)\<rparr>]\<rparr>"
proof -
  from assms obtain audio where
    m: "onmessage k msg s =
       (fst (then_session k (map (\<lambda>c. SendAck (call_id c) (call_name c))
               (report_outcome_calls calls)) s),
        audio @ map (\<lambda>c. OnToolCall (call_args c)) (report_outcome_calls calls) @
        snd (then_session k (map (\<lambda>c. SendAck (call_id c) (call_name c))
               (report_outcome_calls calls)) s))"
    and au: "audio = [] \<or> (\<exists>d. audio = [OnAudioData (decodeAudioData d)])"
    by (rule onmessage_calls)
  from au have aa: "acknowledgments audio = []" by auto
  show "acknowledgments (snd (onmessage k msg s)) =
        map (\<lambda>c. (k, call_id c)) (report_outcome_calls calls)"
    if "promise (conns s ! k) = Fulfilled"
    unfolding m then_session_fulfilled [OF that]
    by (simp only: snd_conv acknowledgments_append aa callbacks_trace acks_of_performed
        append_Nil)
  show "acknowledgments (snd (onmessage k msg s)) = []" if "promise (conns s ! k) \<noteq> Fulfilled"
  proof (cases "promise (conns s ! k)")
    case Pending
    show ?thesis unfolding m then_session_pending [OF Pending]
      by (simp add: acknowledgments_append aa callbacks_trace)
  next
    case Fulfilled
    with that show ?thesis by simp
  next
    case Rejected
    show ?thesis unfolding m then_session_rejected [OF Rejected]
      by (simp only: snd_conv acknowledgments_append aa callbacks_trace rejections_trace
          append_Nil)
  qed
  show "fst (onmessage k msg s) =
        s\<lparr>conns := (conns s)[k := (conns s ! k)\<lparr>reactions := reactions (conns s ! k) @
          map (\<lambda>c. SendAck (call_id c) (call_name c)) (report_outcome_calls calls)\<rparr>]\<rparr>"
    if "promise (conns s ! k) = Pending"
    unfolding m then_session_pending [OF that] by simp
qed

lemma refused_eq:
  "refused =
     \<lparr>session = None, inputAudioContext = None, inputSource = None,
       processor = None, stream = None, isActive = False,
       conns = [\<lparr>promise = Rejected, reactions = [], actualSampleRate = 48000,
                 capturing = False\<rparr>],
       fresh = 1\<rparr>"
  by (simp add: refused_def new_service_def startSession_def rejected_def cleanup_def Let_def)


lemma example_calls:
  "report_outcome_calls [scam_call] = [scam_call]"
  "report_outcome_calls [safe_call] = [safe_call]"
  "report_outcome_calls [malformed_call] = [malformed_call]"
  "report_outcome_calls [scam_call, safe_call] = [scam_call, safe_call]"
  "toolCall (tool_message calls) = Some (ToolCall (Some calls))"
  by (simp_all add: report_outcome_calls_def scam_call_def safe_call_def malformed_call_def
      tool_message_def)

text \<open>
  C2 (as amended).  On the interactive bridge every invocation named \<open>report_outcome\<close>
  is delivered to \<open>onToolCall\<close>, once each and in the order received: for two messages of
  a session the verdicts delivered are those of the first message's invocations followed
  by those of the second's.  Handling them raises nothing unless the session promise was
  rejected; then the \<open>then\<close> of each acknowledgment is an unhandled rejection.  The
  telephony bridge delivers no verdict: a tool call is logged and nothing else is done.
\<close>

theorem every_invocation_delivered:
  assumes k: "k < length (conns s)"
    and m1: "toolCall m1 = Some (ToolCall (Some calls1))"
    and m2: "toolCall m2 = Some (ToolCall (Some calls2))"
  shows "verdicts_delivered (snd (run [Message k m1, Message k m2] s)) =
      map call_args (report_outcome_calls calls1) @ map call_args (report_outcome_calls calls2) \<and>
    (promise (conns s ! k) \<noteq> Rejected \<longrightarrow>
       unhandled_errors (snd (run [Message k m1, Message k m2] s)) = []) \<and>
    (promise (conns s ! k) = Rejected \<longrightarrow>
       unhandled_errors (snd (run [Message k m1, Message k m2] s)) =
         replicate (length (report_outcome_calls calls1) + length (report_outcome_calls calls2))
           Rejection) \<and>
    tw_step (LiveMessage \<lparr>pcm24k = None, live_toolCall = Some tc\<rparr>) c = (c, [Log ''Tool Call:''])"
proof -
  define s1 where "s1 = fst (onmessage k m1 s)"
  have k1: "k < length (conns s1)"
    unfolding s1_def using k onmessage_summary(4) [OF m1, of k s] by simp
  have p1: "promise (conns s1 ! k) = promise (conns s ! k)"
    unfolding s1_def using k by (rule onmessage_summary(5) [OF m1])
  have r: "snd (run [Message k m1, Message k m2] s) =
      snd (onmessage k m1 s) @ snd (onmessage k m2 s1)"
    using k k1 by (simp add: split_beta s1_def)
  have v: "verdicts_delivered (snd (run [Message k m1, Message k m2] s)) =
      map call_args (report_outcome_calls calls1) @ map call_args (report_outcome_calls calls2)"
    unfolding r
    by (simp add: verdicts_delivered_append onmessage_summary(1) [OF m1]
        onmessage_summary(1) [OF m2])
  have ok: "unhandled_errors (snd (run [Message k m1, Message k m2] s)) = []"
    if "promise (conns s ! k) \<noteq> Rejected"
    unfolding r using that p1
    by (simp add: unhandled_errors_append onmessage_summary(6) [OF m1]
        onmessage_summary(6) [OF m2])
  have bad: "unhandled_errors (snd (run [Message k m1, Message k m2] s)) =
      replicate (length (report_outcome_calls calls1) + length (report_outcome_calls calls2))
        Rejection"
    if "promise (conns s ! k) = Rejected"
    unfolding r using that p1
    by (simp add: unhandled_errors_append onmessage_summary(7) [OF m1]
        onmessage_summary(7) [OF m2] replicate_add)
  have tw: "tw_step (LiveMessage \<lparr>pcm24k = None, live_toolCall = Some tc\<rparr>) c =
      (c, [Log ''Tool Call:''])"
    by (simp add: live_onmessage_def)
  from v ok bad tw show ?thesis by blast
qed

text \<open>
  A scam verdict followed by a safe verdict: both are delivered, in that order, without
  error on the established session, and with two unhandled rejections on a session whose
  promise was rejected.
\<close>

theorem every_invocation_delivered_witness:
  "0 < length (conns established) \<and> promise (conns established ! 0) \<noteq> Rejected \<and>
   verdicts_delivered
     (snd (run [Message 0 (tool_message [scam_call]), Message 0 (tool_message [safe_call])]
            established)) = [call_args scam_call, call_args safe_call] \<and>
   unhandled_errors
     (snd (run [Message 0 (tool_message [scam_call]), Message 0 (tool_message [safe_call])]
            established)) = [] \<and>
   0 < length (conns refused) \<and> promise (conns refused ! 0) = Rejected \<and>
   unhandled_errors
     (snd (run [Message 0 (tool_message [scam_call]), Message 0 (tool_message [safe_call])]
            refused)) = [Rejection, Rejection]"
proof -
  have e: "0 < length (conns established)" "promise (conns established ! 0) \<noteq> Rejected"
    by (simp_all add: established_eq)
  have f: "0 < length (conns refused)" "promise (conns refused ! 0) = Rejected"
    by (simp_all add: refused_eq)
  note a = every_invocation_delivered [OF e(1) example_calls(5) example_calls(5),
      of "[scam_call]" "[safe_call]"]
  note b = every_invocation_delivered [OF f(1) example_calls(5) example_calls(5),
      of "[scam_call]" "[safe_call]"]
  from a e(2) have
    "verdicts_delivered
      (snd (run [Message 0 (tool_message [scam_call]), Message 0 (tool_message [safe_call])]
            established)) = [call_args scam_call, call_args safe_call]"
    "unhandled_errors
      (snd (run [Message 0 (tool_message [scam_call]), Message 0 (tool_message [safe_call])]
            established)) = []"
    by (simp_all add: example_calls)
  moreover from b f(2) have
    "unhandled_errors
      (snd (run [Message 0 (tool_message [scam_call]), Message 0 (tool_message [safe_call])]
            refused)) = [Rejection, Rejection]"
    by (simp add: example_calls)
  ultimately show ?thesis using e f by blast
qed

text \<open>
  Two invocations in one session are both delivered to \<open>onToolCall\<close>, the second as
  well as the first: nothing in the handler remembers an earlier verdict.  On the
  telephony bridge the two invocations are logged and neither is delivered.
\<close>

theorem second_verdict_delivered:
  "verdicts_delivered
     (snd (run [Message 0 (tool_message [scam_call]), Message 0 (tool_message [safe_call])]
            established)) =
     [\<lparr>verdict = Some ''scam'', reason = Some ''IRS gift-card demand'', confidence = Some 98\<rparr>,
      \<lparr>verdict = Some ''safe'', reason = Some ''family member'', confidence = Some 90\<rparr>] \<and>
   tw_run [Connected 7,
           LiveMessage \<lparr>pcm24k = None, live_toolCall = Some (ToolCall (Some [scam_call]))\<rparr>,
           LiveMessage \<lparr>pcm24k = None, live_toolCall = Some (ToolCall (Some [safe_call]))\<rparr>]
     new_bridge =
     (\<lparr>streamSid = [], geminiSession = Some 7, listening = True\<rparr>,
      [Log ''Tool Call:'', Log ''Tool Call:''])"
  by (simp add: established_eq onmessage_def then_session_def tool_message_def scam_call_def
      safe_call_def new_bridge_def connected_def live_onmessage_def)

text \<open>
  C3 (as amended).  The arguments of an invocation named \<open>report_outcome\<close> are not
  validated: whatever they are, they are delivered to \<open>onToolCall\<close> as received and no
  message is logged.  The handler leaves \<open>isActive\<close> as it was, but the session does not
  stay active: the component's \<open>onToolCall\<close> records the arguments as the assessment,
  marks the call finished, adds a call log (with status legitimate unless \<open>verdict\<close> is
  \<open>scam\<close>) and sets the 4000 ms timer; the timer's \<open>handleHangUp\<close> calls \<open>stopSession\<close>,
  after which the service is not active.
\<close>

theorem verdict_not_validated:
  assumes k: "k < length (conns s)"
    and m: "toolCall msg = Some (ToolCall (Some [c]))"
    and c: "call_name c = ''report_outcome''"
  shows "verdicts_delivered (snd (step (Message k msg) s)) = [call_args c] \<and>
    \<not> list_ex is_log (snd (step (Message k msg) s)) \<and>
    isActive (fst (step (Message k msg) s)) = isActive s \<and>
    notify_verdicts env (verdicts_delivered (snd (step (Message k msg) s))) sim =
      (sim\<lparr>assessment := Some (call_args c), status := Finished\<rparr>,
       [AddCallLog \<lparr>logId = randomId env, callerId = ''Unknown (Simulated)'',
          logTimestamp = now env, logDuration = randomDuration env,
          logStatus = (if verdict (call_args c) = Some ''scam'' then SCAM_DETECTED
                       else LEGITIMATE),
          summary = reason (call_args c), confidenceScore = confidence (call_args c)\<rparr>,
        SetTimeout 4000]) \<and>
    snd (handleHangUp sim') = [ServiceStop] \<and>
    \<not> isActive (fst (stopSession close_throws s'))"
proof -
  from c have r: "report_outcome_calls [c] = [c]" by (simp add: report_outcome_calls_def)
  from k have st: "step (Message k msg) s = onmessage k msg s" by simp
  have v: "verdicts_delivered (snd (step (Message k msg) s)) = [call_args c]"
    unfolding st using onmessage_summary(1) [OF m, of k s] by (simp add: r)
  have l: "\<not> list_ex is_log (snd (step (Message k msg) s))"
    unfolding st by (rule onmessage_summary(2) [OF m])
  have a: "isActive (fst (step (Message k msg) s)) = isActive s"
    unfolding st by (rule onmessage_summary(3) [OF m])
  have n: "notify_verdicts env (verdicts_delivered (snd (step (Message k msg) s))) sim =
      (sim\<lparr>assessment := Some (call_args c), status := Finished\<rparr>,
       [AddCallLog \<lparr>logId = randomId env, callerId = ''Unknown (Simulated)'',
          logTimestamp = now env, logDuration = randomDuration env,
          logStatus = (if verdict (call_args c) = Some ''scam'' then SCAM_DETECTED
                       else LEGITIMATE),
          summary = reason (call_args c), confidenceScore = confidence (call_args c)\<rparr>,
        SetTimeout 4000])"
    unfolding v by (simp add: onToolCall_def)
  have h: "snd (handleHangUp sim') = [ServiceStop]" by (simp add: handleHangUp_def)
  have "\<not> isActive (fst (cleanup s'))" using cleanup_released [of s'] by simp
  then have x: "\<not> isActive (fst (stopSession close_throws s'))"
    by (simp add: stopSession_def Let_def split_beta)
  from v l a n h x show ?thesis by blast
qed

text \<open>
  The invocation without a \<open>verdict\<close>, on the established session: it is delivered, the
  component finishes the call with a log of status legitimate, and after the hang-up the
  service is not active.
\<close>

theorem verdict_not_validated_witness:
  "0 < length (conns established) \<and> call_name malformed_call = ''report_outcome'' \<and>
   verdict (call_args malformed_call) = None \<and>
   verdicts_delivered (snd (step (Message 0 (tool_message [malformed_call])) established)) =
     [call_args malformed_call] \<and>
   \<not> list_ex is_log (snd (step (Message 0 (tool_message [malformed_call])) established)) \<and>
   isActive (fst (step (Message 0 (tool_message [malformed_call])) established)) \<and>
   notify_verdicts sample_env
     (verdicts_delivered (snd (step (Message 0 (tool_message [malformed_call])) established)))
     playing =
     (playing\<lparr>assessment := Some (call_args malformed_call), status := Finished\<rparr>,
      [AddCallLog \<lparr>logId = ''k3x9'', callerId = ''Unknown (Simulated)'',
         logTimestamp = 1700000000000, logDuration = 45, logStatus = LEGITIMATE,
         summary = Some ''unclear'', confidenceScore = Some 50\<rparr>,
       SetTimeout 4000]) \<and>
   \<not> isActive (fst (stopSession False
       (fst (step (Message 0 (tool_message [malformed_call])) established))))"
proof -
  have c: "call_name malformed_call = ''report_outcome''"
    and v: "verdict (call_args malformed_call) = None"
    and r: "reason (call_args malformed_call) = Some ''unclear''"
    and f: "confidence (call_args malformed_call) = Some 50"
    by (simp_all add: malformed_call_def)
  note t = verdict_not_validated [OF established_facts(1) example_calls(5) c,
      of sample_env playing playing False
         "fst (step (Message 0 (tool_message [malformed_call])) established)"]
  from t have d: "verdicts_delivered
      (snd (step (Message 0 (tool_message [malformed_call])) established)) =
      [call_args malformed_call]"
    and l: "\<not> list_ex is_log (snd (step (Message 0 (tool_message [malformed_call])) established))"
    and a: "isActive (fst (step (Message 0 (tool_message [malformed_call])) established)) =
      isActive established"
    and n: "notify_verdicts sample_env
      (verdicts_delivered (snd (step (Message 0 (tool_message [malformed_call])) established)))
      playing =
      (playing\<lparr>assessment := Some (call_args malformed_call), status := Finished\<rparr>,
       [AddCallLog \<lparr>logId = randomId sample_env, callerId = ''Unknown (Simulated)'',
          logTimestamp = now sample_env, logDuration = randomDuration sample_env,
          logStatus = (if verdict (call_args malformed_call) = Some ''scam'' then SCAM_DETECTED
                       else LEGITIMATE),
          summary = reason (call_args malformed_call),
          confidenceScore = confidence (call_args malformed_call)\<rparr>,
        SetTimeout 4000])"
    and x: "\<not> isActive (fst (stopSession False
       (fst (step (Message 0 (tool_message [malformed_call])) established))))"
    by blast+
  from a established_facts(3)
  have a': "isActive (fst (step (Message 0 (tool_message [malformed_call])) established))"
    by simp
  have n': "notify_verdicts sample_env
     (verdicts_delivered (snd (step (Message 0 (tool_message [malformed_call])) established)))
     playing =
     (playing\<lparr>assessment := Some (call_args malformed_call), status := Finished\<rparr>,
      [AddCallLog \<lparr>logId = ''k3x9'', callerId = ''Unknown (Simulated)'',
         logTimestamp = 1700000000000, logDuration = 45, logStatus = LEGITIMATE,
         summary = Some ''unclear'', confidenceScore = Some 50\<rparr>,
       SetTimeout 4000])"
    unfolding n by (simp add: v r f sample_env_def)
  from established_facts(1) c v d l a' n' x show ?thesis by blast
qed

text \<open>
  An invocation whose arguments omit \<open>verdict\<close> is delivered to \<open>onToolCall\<close> and
  acknowledged like any other, and nothing is logged: the arguments are cast, not
  checked.  The component then marks the call finished.
\<close>

theorem missing_verdict_delivered:
  "step (Message 0 (tool_message [malformed_call])) established =
     (established,
      [OnToolCall \<lparr>verdict = None, reason = Some ''unclear'', confidence = Some 50\<rparr>,
       SendToolResponse 0 ''call-3'' ''report_outcome'']) \<and>
   status (fst (onToolCall sample_env
     \<lparr>verdict = None, reason = Some ''unclear'', confidence = Some 50\<rparr> playing)) = Finished"
  by (simp add: established_eq onmessage_def then_session_def tool_message_def
      malformed_call_def onToolCall_def)

lemma tw_acks_of_message: "tw_acknowledgments (snd (live_onmessage m c)) = []"
  by (simp add: live_onmessage_def split: option.splits)

lemma acks_of_queue:
  "acknowledgments (map (perform k) (rs @ map (\<lambda>c. SendAck (call_id c) (call_name c)) cs)) =
     acknowledgments (map (perform k) rs) @ map (\<lambda>c. (k, call_id c)) cs"
  by (simp only: map_append acknowledgments_append acks_of_performed)

text \<open>
  C8 (as amended).  On the interactive bridge every invocation named \<open>report_outcome\<close>
  is acknowledged by one \<open>sendToolResponse\<close> carrying its id, as the session promise
  allows.  If the promise is fulfilled the acknowledgments of a message are sent at once,
  one per invocation, in order.  If it is pending none is sent then; they are queued
  behind the reactions already waiting and sent, once each, when the promise is
  fulfilled, leaving the queue empty, and not at all if it is rejected.  If the promise
  is already rejected no acknowledgment is sent and each is an unhandled rejection.  The
  telephony bridge sends no acknowledgment for a tool call.
\<close>

theorem acknowledgment_per_invocation:
  assumes k: "k < length (conns s)"
    and m: "toolCall msg = Some (ToolCall (Some calls))"
  shows "(promise (conns s ! k) = Fulfilled \<longrightarrow>
       acknowledgments (snd (step (Message k msg) s)) =
         map (\<lambda>c. (k, call_id c)) (report_outcome_calls calls)) \<and>
    (promise (conns s ! k) = Pending \<longrightarrow>
       acknowledgments (snd (step (Message k msg) s)) = [] \<and>
       acknowledgments (snd (run [Message k msg, Resolved k] s)) =
         acknowledgments (map (perform k) (reactions (conns s ! k))) @
         map (\<lambda>c. (k, call_id c)) (report_outcome_calls calls) \<and>
       reactions (conns (fst (run [Message k msg, Resolved k] s)) ! k) = [] \<and>
       acknowledgments (snd (run [Message k msg, Refused k] s)) = []) \<and>
    (promise (conns s ! k) = Rejected \<longrightarrow>
       acknowledgments (snd (step (Message k msg) s)) = [] \<and>
       unhandled_errors (snd (step (Message k msg) s)) =
         replicate (length (report_outcome_calls calls)) Rejection) \<and>
    tw_acknowledgments (snd (tw_step (LiveMessage m') c)) = []"
proof -
  from k have st: "step (Message k msg) s = onmessage k msg s" by simp
  have ful: "acknowledgments (snd (step (Message k msg) s)) =
      map (\<lambda>c. (k, call_id c)) (report_outcome_calls calls)"
    if "promise (conns s ! k) = Fulfilled"
    unfolding st using that by (rule onmessage_acks(1) [OF m])
  have rej: "acknowledgments (snd (step (Message k msg) s)) = [] \<and>
      unhandled_errors (snd (step (Message k msg) s)) =
        replicate (length (report_outcome_calls calls)) Rejection"
    if "promise (conns s ! k) = Rejected"
    unfolding st using that
    by (simp add: onmessage_acks(2) [OF m] onmessage_summary(7) [OF m])
  have pen: "acknowledgments (snd (step (Message k msg) s)) = [] \<and>
      acknowledgments (snd (run [Message k msg, Resolved k] s)) =
        acknowledgments (map (perform k) (reactions (conns s ! k))) @
        map (\<lambda>c. (k, call_id c)) (report_outcome_calls calls) \<and>
      reactions (conns (fst (run [Message k msg, Resolved k] s)) ! k) = [] \<and>
      acknowledgments (snd (run [Message k msg, Refused k] s)) = []"
    if p: "promise (conns s ! k) = Pending"
  proof -
    define s1 where "s1 = s\<lparr>conns := (conns s)[k := (conns s ! k)\<lparr>reactions :=
        reactions (conns s ! k) @
        map (\<lambda>c. SendAck (call_id c) (call_name c)) (report_outcome_calls calls)\<rparr>]\<rparr>"
    have f: "fst (onmessage k msg s) = s1"
      unfolding s1_def using p by (rule onmessage_acks(3) [OF m])
    have a0: "acknowledgments (snd (onmessage k msg s)) = []"
      using p by (simp add: onmessage_acks(2) [OF m])
    have k1: "k < length (conns s1)" and p1: "promise (conns s1 ! k) = Pending"
      and q1: "reactions (conns s1 ! k) = reactions (conns s ! k) @
        map (\<lambda>c. SendAck (call_id c) (call_name c)) (report_outcome_calls calls)"
      using k p by (simp_all add: s1_def)
    have res: "snd (run [Message k msg, Resolved k] s) =
        snd (onmessage k msg s) @ map (perform k) (reactions (conns s1 ! k))"
      and res_state: "reactions (conns (fst (run [Message k msg, Resolved k] s)) ! k) = []"
      using k k1 p1 by (simp_all add: split_beta f resolved_def)
    have ref: "snd (run [Message k msg, Refused k] s) =
        snd (onmessage k msg s) @ snd (rejected k s1)"
      using k k1 by (simp add: split_beta f)
    have ra: "acknowledgments (snd (rejected k s1)) = []"
      using p1
      by (simp add: rejected_def split_beta acknowledgments_append cleanup_trace
          rejections_trace)
    have r1: "acknowledgments (snd (onmessage k msg s) @
          map (perform k) (reactions (conns s1 ! k))) =
        acknowledgments (map (perform k) (reactions (conns s ! k))) @
        map (\<lambda>c. (k, call_id c)) (report_outcome_calls calls)"
      unfolding q1 by (simp only: acknowledgments_append a0 acks_of_queue append_Nil)
    have r2: "acknowledgments (snd (onmessage k msg s) @ snd (rejected k s1)) = []"
      by (simp only: acknowledgments_append a0 ra append_Nil)
    from a0 r1 r2 res_state show ?thesis
      unfolding st res ref by blast
  qed
  have tw: "tw_acknowledgments (snd (tw_step (LiveMessage m') c)) = []"
    by (simp add: tw_acks_of_message)
  from ful pen rej tw show ?thesis by blast
qed

text \<open>
  Two invocations in one message: acknowledged at once on the established session;
  queued and acknowledged at resolution on the session that is still connecting; never
  acknowledged on the refused one.
\<close>

theorem acknowledgment_per_invocation_witness:
  "0 < length (conns established) \<and> promise (conns established ! 0) = Fulfilled \<and>
   acknowledgments (snd (step (Message 0 (tool_message [scam_call, safe_call])) established)) =
     [(0, ''call-1''), (0, ''call-2'')] \<and>
   0 < length (conns opened) \<and> promise (conns opened ! 0) = Pending \<and>
   acknowledgments (snd (step (Message 0 (tool_message [scam_call, safe_call])) opened)) = [] \<and>
   acknowledgments (snd (run [Message 0 (tool_message [scam_call, safe_call]), Resolved 0]
     opened)) = [(0, ''call-1''), (0, ''call-2'')] \<and>
   acknowledgments (snd (run [Message 0 (tool_message [scam_call, safe_call]), Refused 0]
     opened)) = [] \<and>
   0 < length (conns refused) \<and> promise (conns refused ! 0) = Rejected \<and>
   acknowledgments (snd (step (Message 0 (tool_message [scam_call, safe_call])) refused)) = [] \<and>
   unhandled_errors (snd (step (Message 0 (tool_message [scam_call, safe_call])) refused)) =
     [Rejection, Rejection] \<and>
   tw_acknowledgments (snd (tw_step
     (LiveMessage \<lparr>pcm24k = None, live_toolCall = Some (ToolCall (Some [scam_call]))\<rparr>)
     new_bridge)) = []"
proof -
  have ids: "call_id scam_call = ''call-1''" "call_id safe_call = ''call-2''"
    by (simp_all add: scam_call_def safe_call_def)
  have e: "0 < length (conns established)" "promise (conns established ! 0) = Fulfilled"
    by (simp_all add: established_eq)
  have o: "0 < length (conns opened)" "promise (conns opened ! 0) = Pending"
    "reactions (conns opened ! 0) = []"
    by (simp_all add: opened_eq)
  have f: "0 < length (conns refused)" "promise (conns refused ! 0) = Rejected"
    by (simp_all add: refused_eq)
  note a = acknowledgment_per_invocation [OF e(1) example_calls(5),
      of "[scam_call, safe_call]"
         "\<lparr>pcm24k = None, live_toolCall = Some (ToolCall (Some [scam_call]))\<rparr>" new_bridge]
  note b = acknowledgment_per_invocation [OF o(1) example_calls(5),
      of "[scam_call, safe_call]"
         "\<lparr>pcm24k = None, live_toolCall = Some (ToolCall (Some [scam_call]))\<rparr>" new_bridge]
  note c = acknowledgment_per_invocation [OF f(1) example_calls(5),
      of "[scam_call, safe_call]"
         "\<lparr>pcm24k = None, live_toolCall = Some (ToolCall (Some [scam_call]))\<rparr>" new_bridge]
  from a e(2) have a1:
    "acknowledgments (snd (step (Message 0 (tool_message [scam_call, safe_call])) established)) =
      [(0, ''call-1''), (0, ''call-2'')]"
    and a2: "tw_acknowledgments (snd (tw_step
      (LiveMessage \<lparr>pcm24k = None, live_toolCall = Some (ToolCall (Some [scam_call]))\<rparr>)
      new_bridge)) = []"
    by (simp_all add: example_calls ids)
  from b o(2,3) have b1:
    "acknowledgments (snd (step (Message 0 (tool_message [scam_call, safe_call])) opened)) = []"
    and b2: "acknowledgments (snd (run [Message 0 (tool_message [scam_call, safe_call]),
      Resolved 0] opened)) = [(0, ''call-1''), (0, ''call-2'')]"
    and b3: "acknowledgments (snd (run [Message 0 (tool_message [scam_call, safe_call]),
      Refused 0] opened)) = []"
    by (simp_all add: example_calls ids)
  from c f(2) have c1:
    "acknowledgments (snd (step (Message 0 (tool_message [scam_call, safe_call])) refused)) = []"
    and c2: "unhandled_errors (snd (step (Message 0 (tool_message [scam_call, safe_call]))
      refused)) = [Rejection, Rejection]"
    by (simp_all add: example_calls)
  from e o(1,2) f a1 a2 b1 b2 b3 c1 c2 show ?thesis by blast
qed

text \<open>
  The telephony bridge, given a valid invocation by the remote session, only logs it:
  no acknowledgment is sent on that bridge.
\<close>

theorem telephony_sends_no_acknowledgment:
  "tw_run [Connected 7, WsMessage (StartMsg (Some ''MZ1'')),
           LiveMessage \<lparr>pcm24k = None, live_toolCall = Some (ToolCall (Some [scam_call]))\<rparr>]
     new_bridge =
     (\<lparr>streamSid = ''MZ1'', geminiSession = Some 7, listening = True\<rparr>,
      [Log ''Stream started'', Log ''Tool Call:''])"
  by (simp add: new_bridge_def connected_def ws_on_message_def live_onmessage_def)

section \<open>The interactive bridge: the guard of startSession\<close>







section \<open>Audio and the handshake\<close>

lemma cleanup_no_send: "SendRealtimeInput j b \<notin> set (snd (cleanup s))"
  by (simp add: cleanup_def Let_def split: option.splits)

lemma perform_is_send: "SendRealtimeInput j b = perform k r \<Longrightarrow> j = k"
  by (cases r) simp_all

lemma tool_loop_no_send: "SendRealtimeInput j b \<notin> set (fst (tool_loop calls))"
  by (simp add: tool_loop_eq) auto

lemma grows_refl: "grows s s"
  by (simp add: grows_def)

lemma grows_trans: "grows s s1 \<Longrightarrow> grows s1 s2 \<Longrightarrow> grows s s2"
  by (auto simp: grows_def)

lemma grows_same_conns: "conns s' = conns s \<Longrightarrow> grows s s'"
  by (simp add: grows_def)

lemma cleanup_grows: "grows s (fst (cleanup s))"
  by (rule grows_same_conns) simp

lemma then_session_grows: "k < length (conns s) \<Longrightarrow> grows s (fst (then_session k rs s))"
  by (auto simp: then_session_def grows_def nth_list_update split: pstate.splits)

lemma then_session_send:
  "SendRealtimeInput j b \<in> set (snd (then_session k rs s)) \<Longrightarrow>
     j = k \<and> promise (conns (fst (then_session k rs s)) ! k) = Fulfilled"
  by (auto simp: then_session_def dest: perform_is_send split: pstate.splits)

lemma startSession_grows: "grows s (fst (startSession env s))"
proof (cases "isActive s")
  case True
  then show ?thesis by (simp add: startSession_def grows_refl)
next
  case False
  show ?thesis
  proof (cases env)
    case MicDenied
    with False show ?thesis
      by (simp add: startSession_def split_beta cleanup_grows)
  next
    case ResumeFails
    with False show ?thesis
      by (simp add: startSession_def Let_def split_beta grows_def)
  next
    case (Proceeds suspended rate)
    with False show ?thesis
      by (simp add: startSession_def Let_def grows_def nth_append)
  qed
qed

lemma startSession_no_send: "SendRealtimeInput j b \<notin> set (snd (startSession env s))"
proof (cases "isActive s")
  case True
  then show ?thesis by (simp add: startSession_def)
next
  case False
  show ?thesis
  proof (cases env)
    case MicDenied
    with False show ?thesis
      using cleanup_no_send [of j b s] by (simp add: startSession_def split_beta)
  next
    case ResumeFails
    with False show ?thesis
      using cleanup_no_send [of j b "s\<lparr>stream := Some (fresh s),
        inputAudioContext := Some (fresh s), fresh := fresh s + 1\<rparr>"]
      by (simp add: startSession_def Let_def split_beta)
  next
    case (Proceeds suspended rate)
    with False show ?thesis
      by (simp add: startSession_def Let_def)
  qed
qed

lemma stopSession_grows: "grows s (fst (stopSession t s))"
  by (simp add: stopSession_def Let_def split_beta cleanup_grows)

lemma stopSession_no_send: "SendRealtimeInput j b \<notin> set (snd (stopSession t s))"
  using cleanup_no_send [of j b s]
  by (simp add: stopSession_def Let_def split_beta split: option.splits)

lemma onopen_grows: "k < length (conns s) \<Longrightarrow> grows s (fst (onopen k s))"
  by (simp add: onopen_def Let_def grows_def nth_list_update)

lemma onopen_no_send: "SendRealtimeInput j b \<notin> set (snd (onopen k s))"
  by (simp add: onopen_def Let_def)

lemma onaudioprocess_grows: "k < length (conns s) \<Longrightarrow> grows s (fst (onaudioprocess k i s))"
  by (simp add: onaudioprocess_def then_session_grows grows_refl)

lemma onaudioprocess_send:
  "SendRealtimeInput j b \<in> set (snd (onaudioprocess k i s)) \<Longrightarrow>
     j = k \<and> promise (conns (fst (onaudioprocess k i s)) ! k) = Fulfilled"
  using then_session_send [of j b k _ s]
  by (auto simp: onaudioprocess_def split: if_splits)

lemma onmessage_grows: "k < length (conns s) \<Longrightarrow> grows s (fst (onmessage k msg s))"
  using then_session_grows [of k s]
  by (auto simp: onmessage_def Let_def split_beta grows_refl split: option.splits)

lemma onmessage_send:
  "SendRealtimeInput j b \<in> set (snd (onmessage k msg s)) \<Longrightarrow>
     j = k \<and> promise (conns (fst (onmessage k msg s)) ! k) = Fulfilled"
  using then_session_send [of j b k _ s] tool_loop_no_send [of j b]
  by (auto simp: onmessage_def Let_def split_beta split: option.splits if_splits)

lemma onclose_grows: "grows s (fst (onclose s))"
  by (simp add: onclose_def split_beta cleanup_grows)

lemma onclose_no_send: "SendRealtimeInput j b \<notin> set (snd (onclose s))"
  using cleanup_no_send [of j b s] by (simp add: onclose_def split_beta)

lemma onerror_grows: "grows s (fst (onerror s))"
  by (simp add: onerror_def split_beta cleanup_grows)

lemma onerror_no_send: "SendRealtimeInput j b \<notin> set (snd (onerror s))"
  using cleanup_no_send [of j b s] by (simp add: onerror_def split_beta)

lemma resolved_grows: "k < length (conns s) \<Longrightarrow> grows s (fst (resolved k s))"
  by (simp add: resolved_def grows_def nth_list_update)

lemma resolved_send:
  "k < length (conns s) \<Longrightarrow> SendRealtimeInput j b \<in> set (snd (resolved k s)) \<Longrightarrow>
     j = k \<and> promise (conns (fst (resolved k s)) ! k) = Fulfilled"
  by (auto simp: resolved_def dest: perform_is_send split: if_splits)

lemma rejected_grows: "k < length (conns s) \<Longrightarrow> grows s (fst (rejected k s))"
  by (auto simp: rejected_def split_beta grows_def nth_list_update)

lemma rejected_no_send: "SendRealtimeInput j b \<notin> set (snd (rejected k s))"
  using cleanup_no_send [of j b "s\<lparr>conns := (conns s)[k := (conns s ! k)\<lparr>promise := Rejected,
    reactions := []\<rparr>]\<rparr>"]
  by (auto simp: rejected_def split_beta)

lemma step_grows: "grows s (fst (step e s))"
  by (cases e)
    (simp_all add: grows_refl startSession_grows stopSession_grows onopen_grows
      onaudioprocess_grows onmessage_grows onclose_grows onerror_grows resolved_grows
      rejected_grows)

lemma step_send:
  assumes "SendRealtimeInput j b \<in> set (snd (step e s))"
  shows "j < length (conns (fst (step e s))) \<and> promise (conns (fst (step e s)) ! j) = Fulfilled"
proof (cases e)
  case (StartSession env)
  with assms show ?thesis by (simp add: startSession_no_send)
next
  case (Open k)
  with assms show ?thesis by (simp add: onopen_no_send split: if_splits)
next
  case (AudioProcess k i)
  with assms have g: "k < length (conns s) \<and> capturing (conns s ! k)"
    by (simp split: if_splits)
  then have st: "step e s = onaudioprocess k i s" using AudioProcess by simp
  from assms have m: "SendRealtimeInput j b \<in> set (snd (onaudioprocess k i s))"
    unfolding st .
  from g have k: "k < length (conns s)" ..
  from onaudioprocess_send [OF m] onaudioprocess_grows [OF k, of i] k
  show ?thesis unfolding st by (auto simp: grows_def)
next
  case (Resolved k)
  with assms have k: "k < length (conns s)"
    and m: "SendRealtimeInput j b \<in> set (snd (resolved k s))"
    by (simp_all split: if_splits)
  from resolved_send [OF k m] resolved_grows [OF k] k Resolved
  show ?thesis by (auto simp: grows_def)
next
  case (Refused k)
  with assms show ?thesis by (simp add: rejected_no_send split: if_splits)
next
  case (Message k msg)
  with assms have k: "k < length (conns s)"
    and m: "SendRealtimeInput j b \<in> set (snd (onmessage k msg s))"
    by (simp_all split: if_splits)
  from onmessage_send [OF m] onmessage_grows [OF k, of msg] k Message
  show ?thesis by (auto simp: grows_def)
next
  case (Closed k)
  with assms show ?thesis by (simp add: onclose_no_send split: if_splits)
next
  case (Errored k)
  with assms show ?thesis by (simp add: onerror_no_send split: if_splits)
next
  case (StopSession t)
  with assms show ?thesis by (simp add: stopSession_no_send)
qed

lemma run_grows: "grows s (fst (run es s))"
proof (induction es arbitrary: s)
  case Nil
  then show ?case by (simp add: grows_refl)
next
  case (Cons e es)
  have "grows s (fst (step e s))" by (rule step_grows)
  moreover have "grows (fst (step e s)) (fst (run es (fst (step e s))))" by (rule Cons.IH)
  ultimately have "grows s (fst (run es (fst (step e s))))" by (rule grows_trans)
  then show ?case by (simp add: split_beta)
qed

lemma run_send:
  "SendRealtimeInput j b \<in> set (snd (run es s)) \<Longrightarrow>
     j < length (conns (fst (run es s))) \<and> promise (conns (fst (run es s)) ! j) = Fulfilled"
proof (induction es arbitrary: s)
  case Nil
  then show ?case by simp
next
  case (Cons e es)
  let ?s1 = "fst (step e s)"
  from Cons.prems have "SendRealtimeInput j b \<in> set (snd (step e s)) \<or>
      SendRealtimeInput j b \<in> set (snd (run es ?s1))"
    by (auto simp: split_beta)
  then have "j < length (conns (fst (run es ?s1))) \<and>
      promise (conns (fst (run es ?s1)) ! j) = Fulfilled"
  proof
    assume "SendRealtimeInput j b \<in> set (snd (step e s))"
    then have "j < length (conns ?s1) \<and> promise (conns ?s1 ! j) = Fulfilled"
      by (rule step_send)
    with run_grows [of ?s1 es] show ?thesis by (auto simp: grows_def)
  next
    assume "SendRealtimeInput j b \<in> set (snd (run es ?s1))"
    then show ?thesis by (rule Cons.IH)
  qed
  then show ?case by (simp add: split_beta)
qed

lemma tw_audio_sent_append:
  "tw_audio_sent (xs @ ys) = tw_audio_sent xs @ tw_audio_sent ys"
  by (induction xs rule: tw_audio_sent.induct) simp_all

lemma tw_step_session_kept:
  "geminiSession c \<noteq> None \<Longrightarrow> geminiSession (fst (tw_step e c)) \<noteq> None"
proof (cases e)
  case (WsMessage m)
  assume "geminiSession c \<noteq> None"
  with WsMessage show ?thesis
    by (cases m) (auto simp: ws_on_message_def split: option.splits)
qed (simp_all add: connected_def connect_failed_def ws_on_close_def live_onmessage_def)

lemma tw_step_no_session_no_audio:
  "geminiSession (fst (tw_step e c)) = None \<Longrightarrow> tw_audio_sent (snd (tw_step e c)) = []"
proof (cases e)
  case (WsMessage m)
  assume "geminiSession (fst (tw_step e c)) = None"
  with WsMessage show ?thesis
    by (cases m) (auto simp: ws_on_message_def split: option.splits if_splits)
next
  case (LiveMessage m)
  then show ?thesis by (simp add: live_onmessage_def split: option.splits)
qed (simp_all add: connected_def connect_failed_def ws_on_close_def split: option.splits)

lemma tw_run_session_kept:
  "geminiSession c \<noteq> None \<Longrightarrow> geminiSession (fst (tw_run es c)) \<noteq> None"
proof (induction es arbitrary: c)
  case Nil
  then show ?case by simp
next
  case (Cons e es)
  from Cons.prems have "geminiSession (fst (tw_step e c)) \<noteq> None"
    by (rule tw_step_session_kept)
  then have "geminiSession (fst (tw_run es (fst (tw_step e c)))) \<noteq> None"
    by (rule Cons.IH)
  then show ?case by (simp add: split_beta)
qed

lemma tw_run_no_session_no_audio:
  "geminiSession (fst (tw_run es c)) = None \<Longrightarrow> tw_audio_sent (snd (tw_run es c)) = []"
proof (induction es arbitrary: c)
  case Nil
  then show ?case by simp
next
  case (Cons e es)
  let ?c1 = "fst (tw_step e c)"
  from Cons.prems have fin: "geminiSession (fst (tw_run es ?c1)) = None"
    by (simp add: split_beta)
  then have rest: "tw_audio_sent (snd (tw_run es ?c1)) = []" by (rule Cons.IH)
  from fin tw_run_session_kept [of ?c1 es] have "geminiSession ?c1 = None" by blast
  then have "tw_audio_sent (snd (tw_step e c)) = []" by (rule tw_step_no_session_no_audio)
  with rest show ?case by (simp add: split_beta tw_audio_sent_append)
qed

text \<open>
  C4 (as amended).  No audio is submitted to the remote session before its handshake
  has resolved.  Telephony bridge: a media message handled while \<open>geminiSession\<close> is null
  is dropped, leaving the connection unchanged, and as long as \<open>geminiSession\<close> is null
  no audio has been submitted.  Interactive bridge: a captured buffer is dropped while
  \<open>isActive\<close> is false; while the session promise is pending nothing is submitted when
  the buffer is captured: the submission is queued on the promise, and when the promise is
  fulfilled the queued reactions run in order, the buffer's submission last; and whatever
  the events, an audio submission on a connection occurs only once that connection's
  promise is fulfilled.
\<close>

theorem no_submission_before_handshake:
  "(geminiSession c = None \<longrightarrow> tw_step (WsMessage (MediaMsg payload)) c = (c, [])) \<and>
   (geminiSession (fst (tw_run tes new_bridge)) = None \<longrightarrow>
      tw_audio_sent (snd (tw_run tes new_bridge)) = []) \<and>
   (\<not> isActive s \<longrightarrow> step (AudioProcess k inputData) s = (s, [])) \<and>
   (k < length (conns s) \<and> promise (conns s ! k) = Pending \<longrightarrow>
      snd (step (AudioProcess k inputData) s) = []) \<and>
   (k < length (conns s) \<and> capturing (conns s ! k) \<and> isActive s \<and>
    promise (conns s ! k) = Pending \<longrightarrow>
      snd (run [AudioProcess k inputData, Resolved k] s) =
        map (perform k) (reactions (conns s ! k)) @
        [SendRealtimeInput k (createPcmBlob inputData (actualSampleRate (conns s ! k)))]) \<and>
   (SendRealtimeInput j b \<in> set (snd (run es new_service)) \<longrightarrow>
      j < length (conns (fst (run es new_service))) \<and>
      promise (conns (fst (run es new_service)) ! j) = Fulfilled)"
proof (intro conjI impI)
  assume "geminiSession c = None"
  then show "tw_step (WsMessage (MediaMsg payload)) c = (c, [])"
    by (simp add: ws_on_message_def)
next
  assume "geminiSession (fst (tw_run tes new_bridge)) = None"
  then show "tw_audio_sent (snd (tw_run tes new_bridge)) = []"
    by (rule tw_run_no_session_no_audio)
next
  assume "\<not> isActive s"
  then show "step (AudioProcess k inputData) s = (s, [])"
    by (simp add: onaudioprocess_def)
next
  assume "k < length (conns s) \<and> promise (conns s ! k) = Pending"
  then show "snd (step (AudioProcess k inputData) s) = []"
    by (simp add: onaudioprocess_def then_session_def)
next
  assume "k < length (conns s) \<and> capturing (conns s ! k) \<and> isActive s \<and>
    promise (conns s ! k) = Pending"
  then show "snd (run [AudioProcess k inputData, Resolved k] s) =
      map (perform k) (reactions (conns s ! k)) @
      [SendRealtimeInput k (createPcmBlob inputData (actualSampleRate (conns s ! k)))]"
    by (simp add: onaudioprocess_def then_session_def resolved_def)
next
  assume a: "SendRealtimeInput j b \<in> set (snd (run es new_service))"
  from run_send [OF a] show "j < length (conns (fst (run es new_service)))"
    and "promise (conns (fst (run es new_service)) ! j) = Fulfilled" by simp_all
qed

text \<open>
  Three media messages before the handshake, a buffer captured before \<open>onopen\<close> and one
  captured while the promise is pending submit nothing; a buffer captured after the
  handshake is submitted.
\<close>

theorem no_submission_before_handshake_witness:
  "geminiSession new_bridge = None \<and>
   tw_step (WsMessage (MediaMsg (Some [255, 0]))) new_bridge = (new_bridge, []) \<and>
   geminiSession (fst (tw_run [WsMessage (MediaMsg (Some [255])),
      WsMessage (MediaMsg (Some [0])), WsMessage (MediaMsg (Some [127]))] new_bridge)) = None \<and>
   tw_audio_sent (snd (tw_run [WsMessage (MediaMsg (Some [255])),
      WsMessage (MediaMsg (Some [0])), WsMessage (MediaMsg (Some [127]))] new_bridge)) = [] \<and>
   \<not> isActive new_service \<and>
   step (AudioProcess 0 (InputBuffer 1)) new_service = (new_service, []) \<and>
   0 < length (conns opened) \<and> promise (conns opened ! 0) = Pending \<and>
   snd (step (AudioProcess 0 (InputBuffer 1)) opened) = [] \<and>
   capturing (conns opened ! 0) \<and> isActive opened \<and>
   snd (run [AudioProcess 0 (InputBuffer 1), Resolved 0] opened) =
     [SendRealtimeInput 0 (PcmBlob (InputBuffer 1) 48000)] \<and>
   SendRealtimeInput 0 (PcmBlob (InputBuffer 1) 48000) \<in>
     set (snd (run [StartSession (Proceeds False 48000), Open 0, Resolved 0,
                    AudioProcess 0 (InputBuffer 1)] new_service)) \<and>
   promise (conns (fst (run [StartSession (Proceeds False 48000), Open 0, Resolved 0,
                    AudioProcess 0 (InputBuffer 1)] new_service)) ! 0) = Fulfilled"
proof -
  have b: "geminiSession new_bridge = None" by (simp add: new_bridge_def)
  have r: "geminiSession (fst (tw_run [WsMessage (MediaMsg (Some [255])),
      WsMessage (MediaMsg (Some [0])), WsMessage (MediaMsg (Some [127]))] new_bridge)) = None"
    by (simp add: new_bridge_def ws_on_message_def)
  have i: "\<not> isActive new_service" by (simp add: new_service_def)
  have p: "0 < length (conns opened) \<and> promise (conns opened ! 0) = Pending"
    by (simp add: opened_eq)
  have e: "run [StartSession (Proceeds False 48000), Open 0, Resolved 0,
                AudioProcess 0 (InputBuffer 1)] new_service =
           (established, snd (run [StartSession (Proceeds False 48000), Open 0, Resolved 0]
              new_service) @ [SendRealtimeInput 0 (PcmBlob (InputBuffer 1) 48000)])"
    by (simp add: established_eq new_service_def startSession_def onopen_def resolved_def
        onaudioprocess_def then_session_def createPcmBlob_def Let_def)
  have m: "SendRealtimeInput 0 (PcmBlob (InputBuffer 1) 48000) \<in>
     set (snd (run [StartSession (Proceeds False 48000), Open 0, Resolved 0,
                    AudioProcess 0 (InputBuffer 1)] new_service))"
    unfolding e by simp
  note t = no_submission_before_handshake
    [of new_bridge "Some [255, 0]"
        "[WsMessage (MediaMsg (Some [255])), WsMessage (MediaMsg (Some [0])),
          WsMessage (MediaMsg (Some [127]))]"
        new_service 0 "InputBuffer 1" 0 "PcmBlob (InputBuffer 1) 48000"
        "[StartSession (Proceeds False 48000), Open 0, Resolved 0,
          AudioProcess 0 (InputBuffer 1)]"]
  note t' = no_submission_before_handshake
    [of new_bridge "Some [255, 0]" "[]" opened 0 "InputBuffer 1" 0
        "PcmBlob (InputBuffer 1) 48000" "[]"]
  from t b r i m have
    "tw_step (WsMessage (MediaMsg (Some [255, 0]))) new_bridge = (new_bridge, [])"
    "tw_audio_sent (snd (tw_run [WsMessage (MediaMsg (Some [255])),
      WsMessage (MediaMsg (Some [0])), WsMessage (MediaMsg (Some [127]))] new_bridge)) = []"
    "step (AudioProcess 0 (InputBuffer 1)) new_service = (new_service, [])"
    "promise (conns (fst (run [StartSession (Proceeds False 48000), Open 0, Resolved 0,
                    AudioProcess 0 (InputBuffer 1)] new_service)) ! 0) = Fulfilled"
    by blast+
  moreover from t' p have "snd (step (AudioProcess 0 (InputBuffer 1)) opened) = []"
    by blast
  moreover have q: "capturing (conns opened ! 0) \<and> isActive opened"
    by (simp add: opened_eq)
  moreover from t' p q have "snd (run [AudioProcess 0 (InputBuffer 1), Resolved 0] opened) =
      map (perform 0) (reactions (conns opened ! 0)) @
      [SendRealtimeInput 0 (createPcmBlob (InputBuffer 1) (actualSampleRate (conns opened ! 0)))]"
    by blast
  then have "snd (run [AudioProcess 0 (InputBuffer 1), Resolved 0] opened) =
      [SendRealtimeInput 0 (PcmBlob (InputBuffer 1) 48000)]"
    by (simp add: opened_eq createPcmBlob_def)
  ultimately show ?thesis using b r i p m by blast
qed

text \<open>
  On the interactive bridge a buffer captured after \<open>onopen\<close>, while the session promise
  is still pending, is not dropped: its submission is queued on the promise and made when
  the promise is fulfilled.
\<close>

theorem early_chunk_forwarded:
  "promise (conns opened ! 0) = Pending \<and>
   run [AudioProcess 0 (InputBuffer 1), Resolved 0] opened =
     (established, [SendRealtimeInput 0 (PcmBlob (InputBuffer 1) 48000)])"
  by (simp add: opened_eq established_eq onaudioprocess_def then_session_def resolved_def
      createPcmBlob_def)

section \<open>The playback scheduler\<close>

lemma scheduler_law:
  assumes "audioContextRef sim \<noteq> None" and "analyserRef sim \<noteq> None" and "0 \<le> duration"
  shows "snd (onAudioData currentTime duration sim) =
      [SourceStart (max (nextStartTimeRef sim) currentTime)]"
    and "nextStartTimeRef (fst (onAudioData currentTime duration sim)) =
      max (nextStartTimeRef sim) currentTime + duration"
    and "currentTime \<le> max (nextStartTimeRef sim) currentTime"
    and "nextStartTimeRef sim \<le> nextStartTimeRef (fst (onAudioData currentTime duration sim))"
  using assms by (auto simp: onAudioData_def Let_def)

lemma handleHangUp_resets: "nextStartTimeRef (fst (handleHangUp sim)) = 0"
  by (simp add: handleHangUp_def)

text \<open>
  C9. A buffer of 2 seconds received at device time 5 moves the cursor to 7.  When the
  session then ends by the remote side closing (\<open>onDisconnect\<close>) or by an error
  (\<open>onError\<close>) the cursor stays at 7; only \<open>handleHangUp\<close> resets it to 0.
\<close>

theorem cursor_kept_on_remote_close:
  "fst (onAudioData 5 2 playing) = playing\<lparr>nextStartTimeRef := 7\<rparr> \<and>
   nextStartTimeRef (fst (onDisconnect (fst (onAudioData 5 2 playing)))) = 7 \<and>
   nextStartTimeRef (fst (onError ''Connection error'' (fst (onAudioData 5 2 playing)))) = 7 \<and>
   nextStartTimeRef (fst (handleHangUp (fst (onAudioData 5 2 playing)))) = 0"
  by (simp add: playing_def onAudioData_def onDisconnect_def onError_def handleHangUp_def)

end
